theory Spec2Isabelle
  imports Main
begin

section \<open>Values exchanged with the backend\<close>

text \<open>
  The chat runtime (\<^verbatim>\<open>runtime.ts\<close>) receives tool-call payloads as JSON. A JSON value is
  modelled by the datatype below; an object is its list of fields, read with \<open>map_of\<close>.
  A JavaScript value that may be \<^verbatim>\<open>undefined\<close> (or absent) is an \<open>option\<close>, \<open>None\<close> standing
  for \<^verbatim>\<open>undefined\<close>. Strings are taken as ASCII.
\<close>

datatype json =
    JNull
  | JBool bool
  | JNum int
  | JStr string
  | JArr "json list"
  | JObj "(string \<times> json) list"

text \<open>
  The text \<^verbatim>\<open>JSON.stringify(v, null, 2)\<close> is kept symbolic as \<open>Stringify v\<close>; a string that
  is stored as it came is \<open>Verbatim s\<close>.
\<close>

datatype args_text = Verbatim string | Stringify json

text \<open>
  One tool-call payload, after \<^verbatim>\<open>JSON.parse\<close> and destructuring. The fields are those of
  the type \<^verbatim>\<open>ToolCall\<close> of the chat service: identifiers, names, event types and responses
  are strings, \<^verbatim>\<open>tool_call_details\<close> is an object (its field list) and \<open>None\<close> when it is
  \<^verbatim>\<open>null\<close>, \<^verbatim>\<open>undefined\<close> or absent.
\<close>

record ToolCall =
  call_id :: "string option"
  tool_name :: "string option"
  tool_call_details :: "(string \<times> json) list option"
  event_type :: "string option"
  tool_response :: "string option"
  is_complete :: "bool option"

text \<open>
  An element of the \<^verbatim>\<open>tool_calls\<close> array of a callback: \<open>Malformed\<close> is a string that
  \<^verbatim>\<open>JSON.parse\<close> rejects or a value whose destructuring throws (\<^verbatim>\<open>null\<close>); the
  \<^verbatim>\<open>try\<close>/\<^verbatim>\<open>catch\<close> around the loop body logs it and goes on.
\<close>

datatype raw_tool_call = Malformed | Parsed ToolCall

record ToolCallResult =
  res_event_type :: "string option"
  response :: "string option"
  details :: "(string \<times> json) list option"

record StreamingToolCallPart =
  toolCallId :: "string option"
  toolName :: "string option"
  args :: json
  argsText :: args_text
  streamState :: "ToolCallResult option"
  result :: "ToolCallResult option"
  isError :: bool

section \<open>JavaScript \<open>Map\<close>: insertion-ordered, one entry per key\<close>

type_synonym ('k, 'v) js_map = "('k \<times> 'v) list"

definition map_get :: "('k, 'v) js_map \<Rightarrow> 'k \<Rightarrow> 'v option" where
  "map_get m k = map_of m k"

text \<open>\<^verbatim>\<open>Map.prototype.set\<close>: an existing key keeps its position, a new key goes last.\<close>

fun map_set :: "('k, 'v) js_map \<Rightarrow> 'k \<Rightarrow> 'v \<Rightarrow> ('k, 'v) js_map" where
  "map_set [] k v = [(k, v)]"
| "map_set ((k', v') # m) k v =
     (if k' = k then (k, v) # m else (k', v') # map_set m k v)"

definition map_keys :: "('k, 'v) js_map \<Rightarrow> 'k list" where
  "map_keys m = map fst m"

definition map_values :: "('k, 'v) js_map \<Rightarrow> 'v list" where
  "map_values m = map snd m"

type_synonym tool_map = "(string option, StreamingToolCallPart) js_map"

section \<open>Merging one tool-call payload into the accumulated map\<close>

text \<open>\<^verbatim>\<open>tool_call_details?.arguments\<close>\<close>

fun arguments_of :: "(string \<times> json) list option \<Rightarrow> json option" where
  "arguments_of None = None"
| "arguments_of (Some kvs) = map_of kvs ''arguments''"

text \<open>\<^verbatim>\<open>typeof rawArgs === "object" && rawArgs !== null ? rawArgs : {}\<close>\<close>

fun object_or_empty :: "json option \<Rightarrow> json" where
  "object_or_empty (Some (JArr xs)) = JArr xs"
| "object_or_empty (Some (JObj kvs)) = JObj kvs"
| "object_or_empty _ = JObj []"

text \<open>\<^verbatim>\<open>typeof rawArgs === "string" ? rawArgs : JSON.stringify(rawArgs ?? {}, null, 2)\<close>\<close>

fun default_args_text :: "json option \<Rightarrow> args_text" where
  "default_args_text (Some (JStr s)) = Verbatim s"
| "default_args_text (Some JNull) = Stringify (JObj [])"
| "default_args_text (Some v) = Stringify v"
| "default_args_text None = Stringify (JObj [])"

text \<open>\<^verbatim>\<open>typeof rawArgs === "string" ? rawArgs : JSON.stringify(rawArgs, null, 2)\<close>, for a
  \<^verbatim>\<open>rawArgs\<close> that is not \<^verbatim>\<open>undefined\<close>.\<close>

fun given_args_text :: "json \<Rightarrow> args_text" where
  "given_args_text (JStr s) = Verbatim s"
| "given_args_text v = Stringify v"

text \<open>
  The body of \<^verbatim>\<open>tool_calls.forEach\<close> after parsing. The resume-mode callback of
  \<^verbatim>\<open>run\<close> and the normal-mode callback of \<^verbatim>\<open>streamAsyncIterable\<close> contain the same
  statements, so one definition stands for both. The default \<^verbatim>\<open>previous\<close> has no
  \<^verbatim>\<open>isError\<close>, \<^verbatim>\<open>streamState\<close> or \<^verbatim>\<open>result\<close> property; all three are assigned before
  the record is stored.
\<close>

definition merge_tool_call :: "tool_map \<Rightarrow> ToolCall \<Rightarrow> tool_map" where
  "merge_tool_call accumulatedToolCalls parsed =
    (let rawArgs = arguments_of (tool_call_details parsed);
         previous =
           (case map_get accumulatedToolCalls (call_id parsed) of
              Some prev \<Rightarrow> prev
            | None \<Rightarrow>
                \<lparr> toolCallId = call_id parsed,
                  toolName = tool_name parsed,
                  args = object_or_empty rawArgs,
                  argsText = default_args_text rawArgs,
                  streamState = None,
                  result = None,
                  isError = False \<rparr>);
         argsValue =
           (case rawArgs of None \<Rightarrow> args previous | Some v \<Rightarrow> object_or_empty (Some v));
         argsTextValue =
           (case rawArgs of None \<Rightarrow> argsText previous | Some v \<Rightarrow> given_args_text v);
         state =
           \<lparr> res_event_type = event_type parsed,
             response = tool_response parsed,
             details = tool_call_details parsed \<rparr>;
         next = previous
           \<lparr> streamState := Some state,
             toolName := tool_name parsed,
             args := argsValue,
             argsText := argsTextValue \<rparr>;
         next' =
           (if event_type parsed = Some ''result'' \<or> event_type parsed = Some ''error''
            then next \<lparr> result := Some state, isError := (event_type parsed = Some ''error'') \<rparr>
            else next \<lparr> result := None, isError := False \<rparr>)
     in map_set accumulatedToolCalls (call_id parsed) next')"

fun process_tool_call :: "tool_map \<Rightarrow> raw_tool_call \<Rightarrow> tool_map" where
  "process_tool_call m Malformed = m"
| "process_tool_call m (Parsed parsed) = merge_tool_call m parsed"

definition process_tool_calls :: "tool_map \<Rightarrow> raw_tool_call list \<Rightarrow> tool_map" where
  "process_tool_calls m tool_calls = foldl process_tool_call m tool_calls"

text \<open>The call identifiers of the payloads that parse, in arrival order.\<close>

fun payload_ids :: "raw_tool_call list \<Rightarrow> string option list" where
  "payload_ids [] = []"
| "payload_ids (Malformed # rs) = payload_ids rs"
| "payload_ids (Parsed p # rs) = call_id p # payload_ids rs"

text \<open>First-seen order: a key already present keeps its place, a new one goes last.\<close>

definition add_key :: "'k list \<Rightarrow> 'k \<Rightarrow> 'k list" where
  "add_key ks k = (if k \<in> set ks then ks else ks @ [k])"


section \<open>Content updates\<close>

datatype content_part =
    Reasoning string
  | ToolPart StreamingToolCallPart
  | TextPart string

text \<open>White space removed by \<^verbatim>\<open>String.prototype.trim\<close> (ASCII).\<close>

definition is_space :: "char \<Rightarrow> bool" where
  "is_space c = (c = CHR 0x09 \<or> c = CHR 0x0A \<or> c = CHR 0x0B \<or> c = CHR 0x0C
                 \<or> c = CHR 0x0D \<or> c = CHR 0x20)"

definition trim :: "string \<Rightarrow> string" where
  "trim s = rev (dropWhile is_space (rev (dropWhile is_space s)))"

text \<open>Truthiness of a string that may be \<^verbatim>\<open>null\<close> or \<^verbatim>\<open>undefined\<close>.\<close>

fun truthy :: "string option \<Rightarrow> bool" where
  "truthy None = False"
| "truthy (Some s) = (s \<noteq> [])"

text \<open>
  The object yielded by \<^verbatim>\<open>streamAsyncIterable\<close> (normal mode), in the loop and after it:
  the same expression twice in the source.
\<close>

definition yield_content :: "string option \<Rightarrow> tool_map \<Rightarrow> string \<Rightarrow> content_part list" where
  "yield_content accumulatedThinking accumulatedToolCalls accumulatedText =
     (case accumulatedThinking of
        None \<Rightarrow> []
      | Some t \<Rightarrow> if t \<noteq> [] then [Reasoning t] else [])
     @ map ToolPart (map_values accumulatedToolCalls)
     @ (if accumulatedText \<noteq> [] then [TextPart accumulatedText] else [])"

definition hasContent :: "string option \<Rightarrow> tool_map \<Rightarrow> string \<Rightarrow> bool" where
  "hasContent accumulatedThinking accumulatedToolCalls accumulatedText =
     (truthy accumulatedThinking \<or> length accumulatedToolCalls > 0 \<or> accumulatedText \<noteq> [])"

text \<open>The chunk built by \<^verbatim>\<open>pushToQueue\<close> (resume mode).\<close>

definition pushToQueue_content :: "string \<Rightarrow> tool_map \<Rightarrow> string option \<Rightarrow> content_part list" where
  "pushToQueue_content accumulatedText toolCallsMap accumulatedThinking =
     (case accumulatedThinking of
        None \<Rightarrow> []
      | Some t \<Rightarrow> if t \<noteq> [] \<and> trim t \<noteq> [] then [Reasoning t] else [])
     @ map ToolPart
         (filter (\<lambda>tool. truthy (toolCallId tool) \<and> truthy (toolName tool))
            (map_values toolCallsMap))
     @ [TextPart accumulatedText]"

section \<open>Tool calls of loaded history\<close>

definition apiToolCallToPart :: "ToolCall \<Rightarrow> StreamingToolCallPart" where
  "apiToolCallToPart tc =
    (let rawArgs = arguments_of (tool_call_details tc)
     in \<lparr> toolCallId = call_id tc,
          toolName = tool_name tc,
          args = object_or_empty rawArgs,
          argsText = default_args_text rawArgs,
          streamState = None,
          result = Some
            \<lparr> res_event_type = event_type tc,
              response = tool_response tc,
              details = Some
                (case tool_call_details tc of
                   None \<Rightarrow> [(''summary'', JStr '''')]
                 | Some kvs \<Rightarrow>
                     map_set kvs ''summary''
                       (case map_of kvs ''summary'' of
                          None \<Rightarrow> JStr ''''
                        | Some v \<Rightarrow> if v = JNull then JStr '''' else v)) \<rparr>,
          isError = False \<rparr>)"

text \<open>
  The loop body of \<^verbatim>\<open>dedupeToolCalls\<close>. In the object spread \<^verbatim>\<open>{...existing, ...tc}\<close> a
  property absent from \<^verbatim>\<open>tc\<close> keeps the value of \<^verbatim>\<open>existing\<close>.
\<close>

definition dedupe_step :: "(string option, ToolCall) js_map \<Rightarrow> ToolCall \<Rightarrow> (string option, ToolCall) js_map" where
  "dedupe_step byId tc =
    (case map_get byId (call_id tc) of
       None \<Rightarrow> map_set byId (call_id tc) tc
     | Some existing \<Rightarrow>
         if event_type tc = Some ''result'' \<or> event_type tc = Some ''delegation_result''
            \<or> event_type tc = Some ''error''
         then map_set byId (call_id tc)
                \<lparr> call_id = call_id tc,
                  tool_name = (case tool_name tc of None \<Rightarrow> tool_name existing | Some n \<Rightarrow> Some n),
                  tool_call_details =
                    (case tool_call_details tc of
                       None \<Rightarrow> tool_call_details existing | Some d \<Rightarrow> Some d),
                  event_type = event_type tc,
                  tool_response = tool_response tc,
                  is_complete =
                    (case is_complete tc of None \<Rightarrow> is_complete existing | Some c \<Rightarrow> Some c) \<rparr>
         else byId)"

definition dedupeToolCalls :: "ToolCall list \<Rightarrow> ToolCall list" where
  "dedupeToolCalls toolCalls = map_values (foldl dedupe_step [] toolCalls)"


section \<open>The run: references shared with the hook, messages, backend calls\<close>

record StreamingState =
  sessionId :: "string option"
  currentCursor :: string
  isStreaming :: bool
  isReconnecting :: bool
  reconnectAttempts :: nat

record ResumeSessionInfo =
  resume_sessionId :: string
  cursor :: string

text \<open>The three references that \<^verbatim>\<open>createChatAdapter\<close> closes over.\<close>

record refs =
  isBackgroundTaskActiveRef :: bool
  streamingStateRef :: StreamingState
  resumeSessionRef :: "ResumeSessionInfo option"

datatype role = User | Assistant | System

datatype message_part = MsgText string | MsgImage string | MsgOther

text \<open>An attachment: its \<^verbatim>\<open>type\<close> and its \<^verbatim>\<open>file\<close>, \<open>None\<close> when the property is missing
  or falsy. A file is named by a string.\<close>

record attachment =
  attachment_type :: string
  attachment_file :: "string option"

record ThreadMessage =
  role :: role
  content :: "message_part list"
  attachments :: "attachment list"

text \<open>The calls of \<^verbatim>\<open>ChatService\<close> that a run makes, with their arguments (the callback and
  the abort signal apart): \<^verbatim>\<open>resumeWithCursor(chatId, sessionId, cursor)\<close>,
  \<^verbatim>\<open>streamMessage(chatId, text, selectedNodes, images, sessionId)\<close>, \<^verbatim>\<open>stopMessage(chatId)\<close>.\<close>

datatype backend_call =
    ResumeWithCursor string string string
  | StreamMessage string string "string list" "string list" "string option"
  | StopMessage string

datatype run_error = BackgroundTaskActive | NoUserMessage | MessageMustContainText

text \<open>
  The runtime runs on one event loop. What happens to a run is a sequence of events, each
  handled to completion before the next:
  \<^item> \<open>Pull\<close>: the consumer asks for the next update (\<^verbatim>\<open>next()\<close>), which resumes a generator
    suspended at a \<^verbatim>\<open>yield\<close>;
  \<^item> \<open>Progress message tool_calls thinking\<close>: the backend call invokes the progress callback;
    \<open>thinking\<close> is \<open>None\<close> for \<^verbatim>\<open>undefined\<close>, \<open>Some None\<close> for \<^verbatim>\<open>null\<close>;
  \<^item> \<open>Resolve sessionId\<close>, \<open>Reject\<close>: the promise of the backend call settles;
  \<^item> \<open>Abort\<close>: the abort signal of the run fires;
  \<^item> \<open>Wake\<close>: the event loop resumes a generator whose awaited promise has settled.
\<close>

datatype event =
    Pull
  | Progress string "raw_tool_call list" "string option option"
  | Resolve string
  | Reject
  | Abort
  | Wake

datatype promise = Pending | Fulfilled | Rejected

section \<open>Normal mode: \<^verbatim>\<open>streamAsyncIterable\<close>\<close>

text \<open>
  Where the generator is suspended: at the \<^verbatim>\<open>await Promise.race\<close> of the loop (with the
  state of that race), at the \<^verbatim>\<open>yield\<close> inside the loop, at the \<^verbatim>\<open>yield\<close> after the loop, or
  not at all because it has returned or thrown.
\<close>

datatype location = AwaitingRace promise | YieldedInLoop | YieldedFinal | Returned

text \<open>
  The local variables of the generator, the state of the promises it creates, the abort
  signal, the shared streaming state, and what the run has done so far: the backend calls
  made, the updates yielded to the consumer, and whether an error was thrown to it.
  \<open>waitForUpdate\<close> is the state of the promise currently held by the variable of that name:
  pending, fulfilled (by \<^verbatim>\<open>handleAbort\<close>, with \<^verbatim>\<open>false\<close>) or rejected. \<open>streamPromise\<close> is
  \<open>None\<close> until \<^verbatim>\<open>ChatService.streamMessage\<close> is called.
\<close>

record stream_state =
  accumulatedText :: string
  accumulatedThinking :: "string option"
  accumulatedToolCalls :: tool_map
  hasUpdate :: bool
  aborted :: bool
  streamFinished :: bool
  waitForUpdate :: promise
  streamPromise :: "promise option"
  at :: location
  signal_aborted :: bool
  abort_listener :: bool
  streamingState :: StreamingState
  calls :: "backend_call list"
  yielded :: "content_part list list"
  thrown :: bool

text \<open>
  A race that is still pending waits on the promise that \<^verbatim>\<open>waitForUpdate\<close> holds: the
  variable is reassigned only by the callback, which resolves the old promise first. So
  settling the current promise settles a pending race.
\<close>

definition settle_race :: "promise \<Rightarrow> stream_state \<Rightarrow> location" where
  "settle_race outcome s =
     (case at s of AwaitingRace Pending \<Rightarrow> AwaitingRace outcome | l \<Rightarrow> l)"

definition handleAbort :: "string \<Rightarrow> stream_state \<Rightarrow> stream_state" where
  "handleAbort chatId s =
     (if aborted s then s
      else s \<lparr> aborted := True,
               calls := calls s @ [StopMessage chatId],
               waitForUpdate := (if waitForUpdate s = Pending then Fulfilled else waitForUpdate s),
               at := (if waitForUpdate s = Pending then settle_race Fulfilled s else at s) \<rparr>)"

text \<open>The progress callback passed to \<^verbatim>\<open>ChatService.streamMessage\<close>.\<close>

definition onProgress ::
  "string \<Rightarrow> raw_tool_call list \<Rightarrow> string option option \<Rightarrow> stream_state \<Rightarrow> stream_state" where
  "onProgress message tool_calls thinking s =
     (if signal_aborted s \<or> aborted s then s
      else s \<lparr> accumulatedText := message,
               accumulatedThinking :=
                 (case thinking of None \<Rightarrow> accumulatedThinking s | Some t \<Rightarrow> t),
               accumulatedToolCalls := process_tool_calls (accumulatedToolCalls s) tool_calls,
               hasUpdate := True,
               waitForUpdate := Pending,
               at := (if waitForUpdate s = Pending then settle_race Fulfilled s else at s) \<rparr>)"

text \<open>
  The \<^verbatim>\<open>then\<close> handler of the backend promise, followed by the handlers
  \<^verbatim>\<open>() => { streamFinished = true }\<close> that every pass through the loop has registered.
\<close>

definition onResolve :: "string \<Rightarrow> stream_state \<Rightarrow> stream_state" where
  "onResolve sid s =
     s \<lparr> streamingState := (streamingState s) \<lparr> sessionId := Some sid, isStreaming := False \<rparr>,
         streamPromise := Some Fulfilled,
         streamFinished := True,
         at := settle_race Fulfilled s \<rparr>"

text \<open>The \<^verbatim>\<open>catch\<close> handler of the backend promise; it rethrows, so the race rejects.\<close>

definition onReject :: "stream_state \<Rightarrow> stream_state" where
  "onReject s =
     s \<lparr> streamingState := (streamingState s) \<lparr> isStreaming := False \<rparr>,
         streamPromise := Some Rejected,
         waitForUpdate :=
           (if \<not> aborted s \<and> waitForUpdate s = Pending then Rejected else waitForUpdate s),
         at := settle_race Rejected s \<rparr>"

text \<open>\<^verbatim>\<open>Promise.race([waitForUpdate, streamPromise.then(...)])\<close> at the moment it is created.\<close>

definition race_now :: "stream_state \<Rightarrow> promise" where
  "race_now s =
     (case waitForUpdate s of
        Pending \<Rightarrow> (case streamPromise s of None \<Rightarrow> Pending | Some p \<Rightarrow> p)
      | settled \<Rightarrow> settled)"

definition finally_block :: "stream_state \<Rightarrow> stream_state" where
  "finally_block s =
     s \<lparr> abort_listener := False,
         streamingState := (streamingState s) \<lparr> isStreaming := False \<rparr>,
         at := Returned \<rparr>"

text \<open>The code after the loop: the final yield.\<close>

definition after_loop :: "stream_state \<Rightarrow> stream_state" where
  "after_loop s =
     (if \<not> aborted s
         \<and> hasContent (accumulatedThinking s) (accumulatedToolCalls s) (accumulatedText s)
      then s \<lparr> yielded := yielded s
                  @ [yield_content (accumulatedThinking s) (accumulatedToolCalls s)
                       (accumulatedText s)],
               at := YieldedFinal \<rparr>
      else finally_block s)"

text \<open>
  The loop condition, then the race. A handler registered on a backend promise that is
  already fulfilled runs before the generator goes on.
\<close>

definition loop_head :: "stream_state \<Rightarrow> stream_state" where
  "loop_head s =
     (if \<not> streamFinished s \<and> \<not> aborted s
      then s \<lparr> at := AwaitingRace (race_now s),
               streamFinished := (streamFinished s \<or> streamPromise s = Some Fulfilled) \<rparr>
      else after_loop s)"

text \<open>The loop body after the race has been fulfilled.\<close>

definition after_await :: "stream_state \<Rightarrow> stream_state" where
  "after_await s =
     (if aborted s then after_loop s
      else if hasUpdate s
      then s \<lparr> hasUpdate := False,
               yielded := yielded s
                  @ [yield_content (accumulatedThinking s) (accumulatedToolCalls s)
                       (accumulatedText s)],
               at := YieldedInLoop \<rparr>
      else loop_head s)"

text \<open>
  The race has rejected: the \<^verbatim>\<open>catch\<close> of the generator rethrows unless aborted, and the
  \<^verbatim>\<open>catch\<close> around \<^verbatim>\<open>for await\<close> in \<^verbatim>\<open>run\<close> returns when the signal is aborted and
  rethrows otherwise.
\<close>

definition catch_block :: "stream_state \<Rightarrow> stream_state" where
  "catch_block s =
     (if \<not> aborted s then (finally_block s) \<lparr> thrown := \<not> signal_aborted s \<rparr>
      else finally_block s)"

text \<open>The state in which the generator body is entered.\<close>

definition stream_init :: "StreamingState \<Rightarrow> bool \<Rightarrow> stream_state" where
  "stream_init st signalAborted =
     \<lparr> accumulatedText = '''',
       accumulatedThinking = None,
       accumulatedToolCalls = [],
       hasUpdate = False,
       aborted = False,
       streamFinished = False,
       waitForUpdate = Pending,
       streamPromise = None,
       at = Returned,
       signal_aborted = signalAborted,
       abort_listener = False,
       streamingState = st,
       calls = [],
       yielded = [],
       thrown = False \<rparr>"

text \<open>\<^verbatim>\<open>streamingStateRef.current.sessionId || undefined\<close>\<close>

fun or_undefined :: "string option \<Rightarrow> string option" where
  "or_undefined None = None"
| "or_undefined (Some s) = (if s = [] then None else Some s)"

text \<open>
  The generator body up to its first suspension. With a signal that is already aborted it
  calls \<^verbatim>\<open>handleAbort\<close> and returns, before the \<^verbatim>\<open>try\<close>: the \<^verbatim>\<open>finally\<close> block does not run.
\<close>

definition start ::
  "string \<Rightarrow> string \<Rightarrow> string list \<Rightarrow> string list \<Rightarrow> stream_state \<Rightarrow> stream_state" where
  "start chatId msg selectedNodes images s =
     (if signal_aborted s then (handleAbort chatId s) \<lparr> at := Returned \<rparr>
      else loop_head
             (s \<lparr> abort_listener := True,
                  streamPromise := Some Pending,
                  calls := calls s
                    @ [StreamMessage chatId msg selectedNodes images
                         (or_undefined (sessionId (streamingState s)))] \<rparr>))"

text \<open>
  One event of a normal-mode run. The backend invokes the callback and settles its promise
  only while that promise is pending; an abort signal fires once and runs the listener if
  one is registered.
\<close>

fun stream_step :: "string \<Rightarrow> event \<Rightarrow> stream_state \<Rightarrow> stream_state" where
  "stream_step chatId Pull s =
     (case at s of
        YieldedInLoop \<Rightarrow> loop_head s
      | YieldedFinal \<Rightarrow> finally_block s
      | _ \<Rightarrow> s)"
| "stream_step chatId Wake s =
     (case at s of
        AwaitingRace Fulfilled \<Rightarrow> after_await s
      | AwaitingRace Rejected \<Rightarrow> catch_block s
      | _ \<Rightarrow> s)"
| "stream_step chatId (Progress message tool_calls thinking) s =
     (if streamPromise s = Some Pending then onProgress message tool_calls thinking s else s)"
| "stream_step chatId (Resolve sid) s =
     (if streamPromise s = Some Pending then onResolve sid s else s)"
| "stream_step chatId Reject s =
     (if streamPromise s = Some Pending then onReject s else s)"
| "stream_step chatId Abort s =
     (if signal_aborted s then s
      else if abort_listener s then handleAbort chatId (s \<lparr> signal_aborted := True \<rparr>)
      else s \<lparr> signal_aborted := True \<rparr>)"

section \<open>Resume mode: the queue and the generator loop of \<^verbatim>\<open>run\<close>\<close>

text \<open>
  The generator is suspended at the \<^verbatim>\<open>await\<close> of the promise it created (pending, or
  resolved with \<^verbatim>\<open>null\<close> or with a chunk), or at a \<^verbatim>\<open>yield\<close>, or it has returned.
\<close>

datatype resume_location =
    ResumeAwaiting "content_part list option option"
  | ResumeYielded
  | ResumeReturned

text \<open>\<open>resolve\<close> tells whether the variable \<^verbatim>\<open>resolve\<close> holds a function.\<close>

record resume_state =
  queue :: "content_part list list"
  resolve :: bool
  finished :: bool
  resume_accumulatedToolCalls :: tool_map
  resume_accumulatedThinking :: "string option"
  resume_at :: resume_location
  resume_promise :: "promise option"
  resume_calls :: "backend_call list"
  resume_yielded :: "content_part list list"

definition pushToQueue :: "string \<Rightarrow> tool_map \<Rightarrow> string option \<Rightarrow> resume_state \<Rightarrow> resume_state" where
  "pushToQueue message toolCallsMap thinking s =
     (let chunk = pushToQueue_content message toolCallsMap thinking
      in if resolve s
         then s \<lparr> resume_at :=
                    (case resume_at s of
                       ResumeAwaiting None \<Rightarrow> ResumeAwaiting (Some (Some chunk))
                     | l \<Rightarrow> l),
                  resolve := False \<rparr>
         else s \<lparr> queue := queue s @ [chunk] \<rparr>)"

text \<open>The progress callback passed to \<^verbatim>\<open>ChatService.resumeWithCursor\<close>.\<close>

definition onResumeProgress ::
  "string \<Rightarrow> raw_tool_call list \<Rightarrow> string option option \<Rightarrow> resume_state \<Rightarrow> resume_state" where
  "onResumeProgress message tool_calls thinking s =
     (let thinking' =
            (case thinking of None \<Rightarrow> resume_accumulatedThinking s | Some t \<Rightarrow> t);
          toolCalls' = process_tool_calls (resume_accumulatedToolCalls s) tool_calls
      in pushToQueue message toolCalls' thinking'
           (s \<lparr> resume_accumulatedThinking := thinking',
                resume_accumulatedToolCalls := toolCalls' \<rparr>))"

text \<open>The \<^verbatim>\<open>then\<close> and the \<^verbatim>\<open>catch\<close> handler of the resume call do the same.\<close>

definition onSettled :: "promise \<Rightarrow> resume_state \<Rightarrow> resume_state" where
  "onSettled outcome s =
     s \<lparr> finished := True,
         resume_promise := Some outcome,
         resume_at :=
           (if resolve s
            then (case resume_at s of
                    ResumeAwaiting None \<Rightarrow> ResumeAwaiting (Some None)
                  | l \<Rightarrow> l)
            else resume_at s) \<rparr>"

text \<open>One pass through \<^verbatim>\<open>while (true)\<close>, up to the next suspension.\<close>

definition resume_loop :: "resume_state \<Rightarrow> resume_state" where
  "resume_loop s =
     (case queue s of
        chunk # rest \<Rightarrow>
          s \<lparr> queue := rest, resume_yielded := resume_yielded s @ [chunk],
              resume_at := ResumeYielded \<rparr>
      | [] \<Rightarrow>
          if finished s then s \<lparr> resume_at := ResumeReturned \<rparr>
          else s \<lparr> resolve := True, resume_at := ResumeAwaiting None \<rparr>)"

definition resume_init :: resume_state where
  "resume_init =
     \<lparr> queue = [], resolve = False, finished = False,
       resume_accumulatedToolCalls = [], resume_accumulatedThinking = None,
       resume_at = ResumeReturned, resume_promise = None,
       resume_calls = [], resume_yielded = [] \<rparr>"

definition resume_start :: "string \<Rightarrow> string \<Rightarrow> string \<Rightarrow> resume_state \<Rightarrow> resume_state" where
  "resume_start chatId sid cur s =
     resume_loop
       (s \<lparr> resume_calls := resume_calls s @ [ResumeWithCursor chatId sid cur],
            resume_promise := Some Pending \<rparr>)"

text \<open>
  One event of a resume-mode run. The branch registers no listener on the abort signal, it
  only hands the signal to \<^verbatim>\<open>resumeWithCursor\<close>: an abort changes nothing here.
\<close>

fun resume_step :: "event \<Rightarrow> resume_state \<Rightarrow> resume_state" where
  "resume_step Pull s =
     (case resume_at s of ResumeYielded \<Rightarrow> resume_loop s | _ \<Rightarrow> s)"
| "resume_step Wake s =
     (case resume_at s of
        ResumeAwaiting (Some None) \<Rightarrow> s \<lparr> resume_at := ResumeReturned \<rparr>
      | ResumeAwaiting (Some (Some chunk)) \<Rightarrow>
          s \<lparr> resume_yielded := resume_yielded s @ [chunk], resume_at := ResumeYielded \<rparr>
      | _ \<Rightarrow> s)"
| "resume_step (Progress message tool_calls thinking) s =
     (if resume_promise s = Some Pending then onResumeProgress message tool_calls thinking s
      else s)"
| "resume_step (Resolve sid) s =
     (if resume_promise s = Some Pending then onSettled Fulfilled s else s)"
| "resume_step Reject s =
     (if resume_promise s = Some Pending then onSettled Rejected s else s)"
| "resume_step Abort s = s"

section \<open>\<^verbatim>\<open>run\<close>: dispatch on the first pull, then one of the two generators\<close>

datatype run_state =
    Refused run_error
  | Resuming resume_state
  | Streaming stream_state

fun last_message :: "ThreadMessage list \<Rightarrow> ThreadMessage option" where
  "last_message [] = None"
| "last_message ms = Some (last ms)"

text \<open>\<^verbatim>\<open>lastMessage.content.find((c) => c.type === "text")\<close>\<close>

fun find_text :: "message_part list \<Rightarrow> string option" where
  "find_text [] = None"
| "find_text (MsgText t # ps) = Some t"
| "find_text (_ # ps) = find_text ps"

fun image_files :: "attachment list \<Rightarrow> string list" where
  "image_files [] = []"
| "image_files (a # as) =
     (case attachment_file a of
        Some f \<Rightarrow> if attachment_type a = ''image'' then f # image_files as else image_files as
      | None \<Rightarrow> image_files as)"

text \<open>
  The first pull of \<^verbatim>\<open>run\<close>, up to the first suspension. \<open>multimodal\<close> is the value of
  \<^verbatim>\<open>isMultimodalEnabled()\<close>, \<open>contextNodes\<close> the value of
  \<^verbatim>\<open>runConfig?.custom?.selectedNodes\<close>, \<open>signalAborted\<close> the state of the abort signal at that
  moment. The result is the state of the references and of the run. From then on the
  streaming state is followed inside the state of the generator.
\<close>

definition run_start ::
  "string \<Rightarrow> refs \<Rightarrow> bool \<Rightarrow> ThreadMessage list \<Rightarrow> string list option \<Rightarrow> bool
     \<Rightarrow> refs \<times> run_state" where
  "run_start chatId r multimodal messages contextNodes signalAborted =
     (case resumeSessionRef r of
        Some resumeSession \<Rightarrow>
          (r \<lparr> resumeSessionRef := None \<rparr>,
           Resuming (resume_start chatId (resume_sessionId resumeSession)
                       (cursor resumeSession) resume_init))
      | None \<Rightarrow>
          if isBackgroundTaskActiveRef r then (r, Refused BackgroundTaskActive)
          else
            (case last_message messages of
               None \<Rightarrow> (r, Refused NoUserMessage)
             | Some lastMessage \<Rightarrow>
                 if role lastMessage \<noteq> User then (r, Refused NoUserMessage)
                 else
                   (case find_text (content lastMessage) of
                      None \<Rightarrow> (r, Refused MessageMustContainText)
                    | Some textContent \<Rightarrow>
                        (let selectedNodes =
                               (case contextNodes of None \<Rightarrow> [] | Some ns \<Rightarrow> ns);
                             images =
                               (if multimodal then image_files (attachments lastMessage)
                                else []);
                             st = (streamingStateRef r)
                                    \<lparr> isStreaming := True, currentCursor := ''0-0'',
                                      sessionId := None \<rparr>
                         in (r \<lparr> streamingStateRef := st \<rparr>,
                             Streaming (start chatId textContent selectedNodes images
                                          (stream_init st signalAborted)))))))"

fun run_step :: "string \<Rightarrow> event \<Rightarrow> run_state \<Rightarrow> run_state" where
  "run_step chatId e (Refused err) = Refused err"
| "run_step chatId e (Resuming s) = Resuming (resume_step e s)"
| "run_step chatId e (Streaming s) = Streaming (stream_step chatId e s)"

definition run_events :: "string \<Rightarrow> event list \<Rightarrow> run_state \<Rightarrow> run_state" where
  "run_events chatId evs s = foldl (\<lambda>s e. run_step chatId e s) s evs"

text \<open>What the outside sees of a run.\<close>

fun backend_calls :: "run_state \<Rightarrow> backend_call list" where
  "backend_calls (Refused err) = []"
| "backend_calls (Resuming s) = resume_calls s"
| "backend_calls (Streaming s) = calls s"

fun updates :: "run_state \<Rightarrow> content_part list list" where
  "updates (Refused err) = []"
| "updates (Resuming s) = resume_yielded s"
| "updates (Streaming s) = yielded s"

fun threw :: "run_state \<Rightarrow> bool" where
  "threw (Refused err) = True"
| "threw (Resuming s) = False"
| "threw (Streaming s) = thrown s"

fun ended :: "run_state \<Rightarrow> bool" where
  "ended (Refused err) = True"
| "ended (Resuming s) = (resume_at s = ResumeReturned)"
| "ended (Streaming s) = (at s = Returned)"

fun is_stop :: "backend_call \<Rightarrow> bool" where
  "is_stop (StopMessage c) = True"
| "is_stop _ = False"

definition stream_events :: "string \<Rightarrow> event list \<Rightarrow> stream_state \<Rightarrow> stream_state" where
  "stream_events chatId evs s = foldl (\<lambda>s e. stream_step chatId e s) s evs"

definition resume_events :: "event list \<Rightarrow> resume_state \<Rightarrow> resume_state" where
  "resume_events evs s = foldl (\<lambda>s e. resume_step e s) s evs"

text \<open>The update that the generator would yield from its accumulated state.\<close>

definition snapshot :: "stream_state \<Rightarrow> content_part list" where
  "snapshot s = yield_content (accumulatedThinking s) (accumulatedToolCalls s) (accumulatedText s)"

text \<open>
  The chunks of a resume-mode run that are on their way to the consumer: the one handed to
  the awaited promise, then the queue.
\<close>

definition in_flight :: "resume_state \<Rightarrow> content_part list list" where
  "in_flight s =
     (case resume_at s of ResumeAwaiting (Some (Some chunk)) \<Rightarrow> [chunk] | _ \<Rightarrow> []) @ queue s"

fun is_resume :: "backend_call \<Rightarrow> bool" where
  "is_resume (ResumeWithCursor c s k) = True"
| "is_resume _ = False"

section \<open>What the callback handles of a sequence of events\<close>

text \<open>
  The arguments of one invocation of the progress callback: message, tool calls, thinking.
\<close>

type_synonym progress = "string \<times> raw_tool_call list \<times> string option option"

text \<open>
  The events after which the callback no longer takes anything in: the backend call has
  settled, or, in normal mode, the abort signal has fired (the callback returns at once
  when the signal is aborted; the resume-mode callback has no such test).
\<close>

fun stops_callback :: "bool \<Rightarrow> event \<Rightarrow> bool" where
  "stops_callback normal (Resolve sid) = True"
| "stops_callback normal Reject = True"
| "stops_callback normal Abort = normal"
| "stops_callback normal e = False"

fun handled :: "bool \<Rightarrow> event list \<Rightarrow> progress list" where
  "handled normal [] = []"
| "handled normal (Progress message tool_calls thinking # evs) =
     (message, tool_calls, thinking) # handled normal evs"
| "handled normal (e # evs) = (if stops_callback normal e then [] else handled normal evs)"


text \<open>Text, thinking and tool calls after one more invocation of the callback.\<close>

fun accumulate ::
  "string \<times> string option \<times> tool_map \<Rightarrow> progress \<Rightarrow> string \<times> string option \<times> tool_map" where
  "accumulate (txt, th, m) (message, tool_calls, thinking) =
     (message, (case thinking of None \<Rightarrow> th | Some t \<Rightarrow> t), process_tool_calls m tool_calls)"

fun chunk_of :: "string \<times> string option \<times> tool_map \<Rightarrow> content_part list" where
  "chunk_of (txt, th, m) = pushToQueue_content txt m th"

text \<open>The chunks that the resume-mode callback builds, one per invocation, in order.\<close>

fun built :: "string \<times> string option \<times> tool_map \<Rightarrow> progress list \<Rightarrow> content_part list list" where
  "built a [] = []"
| "built a (p # ps) = chunk_of (accumulate a p) # built (accumulate a p) ps"

definition accumulated :: "stream_state \<Rightarrow> string \<times> string option \<times> tool_map" where
  "accumulated s = (accumulatedText s, accumulatedThinking s, accumulatedToolCalls s)"

text \<open>The normal-mode callback still takes its arguments in.\<close>

definition callback_open :: "stream_state \<Rightarrow> bool" where
  "callback_open s = (streamPromise s = Some Pending \<and> \<not> signal_aborted s \<and> \<not> aborted s)"

section \<open>Invariants of the two generators\<close>

text \<open>
  Normal mode. The abort listener is registered exactly while the generator has not
  returned; an error is thrown only by a run that was not aborted; an aborted signal has
  run \<^verbatim>\<open>handleAbort\<close> unless the generator had returned; a pending race waits on a pending
  \<^verbatim>\<open>waitForUpdate\<close> of a run that is not aborted.
\<close>

definition stream_inv :: "stream_state \<Rightarrow> bool" where
  "stream_inv s =
     ((if at s = Returned then \<not> abort_listener s else abort_listener s \<and> \<not> thrown s)
      \<and> (thrown s \<longrightarrow> \<not> aborted s)
      \<and> (signal_aborted s \<and> at s \<noteq> Returned \<longrightarrow> aborted s)
      \<and> (at s = AwaitingRace Pending \<longrightarrow> waitForUpdate s = Pending \<and> \<not> aborted s))"

text \<open>
  While the backend call is pending, the loop has not seen it finish, and the generator
  is in the loop unless the run was aborted.
\<close>

definition stream_pending_inv :: "stream_state \<Rightarrow> bool" where
  "stream_pending_inv s =
     (streamPromise s = Some Pending \<longrightarrow>
        \<not> streamFinished s \<and> (waitForUpdate s = Pending \<or> aborted s)
        \<and> waitForUpdate s \<noteq> Rejected \<and> at s \<noteq> AwaitingRace Rejected
        \<and> at s \<noteq> YieldedFinal \<and> (at s = Returned \<longrightarrow> aborted s))"

text \<open>
  Resume mode. The generator waits on a pending promise only with an empty queue, with
  \<^verbatim>\<open>resolve\<close> set and the call unsettled; it has returned only with an empty queue and a
  settled call.
\<close>

definition resume_inv :: "resume_state \<Rightarrow> bool" where
  "resume_inv s =
     ((resume_at s = ResumeAwaiting None \<longrightarrow> queue s = [] \<and> resolve s \<and> \<not> finished s)
      \<and> (resolve s \<and> resume_promise s = Some Pending \<longrightarrow> resume_at s = ResumeAwaiting None)
      \<and> (resume_at s = ResumeAwaiting (Some None) \<longrightarrow> queue s = [] \<and> finished s)
      \<and> (resume_at s = ResumeReturned \<longrightarrow> queue s = [] \<and> finished s)
      \<and> (finished s \<longleftrightarrow> resume_promise s \<noteq> Some Pending))"

section \<open>Inputs used in the examples\<close>

text \<open>References of a conversation with no run in progress and no resume request.\<close>

definition idle_refs :: refs where
  "idle_refs =
     \<lparr> isBackgroundTaskActiveRef = False,
       streamingStateRef =
         \<lparr> sessionId = None, currentCursor = ''0-0'', isStreaming = False,
           isReconnecting = False, reconnectAttempts = 0 \<rparr>,
       resumeSessionRef = None \<rparr>"

text \<open>References left by a run that is still streaming.\<close>

definition streaming_refs :: refs where
  "streaming_refs =
     \<lparr> isBackgroundTaskActiveRef = False,
       streamingStateRef =
         \<lparr> sessionId = None, currentCursor = ''0-0'', isStreaming = True,
           isReconnecting = False, reconnectAttempts = 0 \<rparr>,
       resumeSessionRef = None \<rparr>"

text \<open>References with a pending resume request, as \<^verbatim>\<open>resumeActiveSession\<close> leaves them.\<close>

definition resume_refs :: refs where
  "resume_refs =
     \<lparr> isBackgroundTaskActiveRef = True,
       streamingStateRef =
         \<lparr> sessionId = None, currentCursor = ''0-0'', isStreaming = False,
           isReconnecting = False, reconnectAttempts = 0 \<rparr>,
       resumeSessionRef = Some \<lparr> resume_sessionId = ''s1'', cursor = ''5-1'' \<rparr> \<rparr>"

definition user_turn :: "ThreadMessage list" where
  "user_turn = [\<lparr> role = User, content = [MsgText ''hi''], attachments = [] \<rparr>]"

text \<open>A "call" payload for call "a" of the tool "search", and one without tool name.\<close>

definition search_call :: ToolCall where
  "search_call =
     \<lparr> call_id = Some ''a'', tool_name = Some ''search'', tool_call_details = None,
       event_type = Some ''call'', tool_response = None, is_complete = None \<rparr>"

definition unnamed_call :: ToolCall where
  "unnamed_call =
     \<lparr> call_id = Some ''a'', tool_name = None, tool_call_details = None,
       event_type = Some ''call'', tool_response = None, is_complete = None \<rparr>"

definition fetch_call :: ToolCall where
  "fetch_call =
     \<lparr> call_id = Some ''b'', tool_name = Some ''fetch'', tool_call_details = None,
       event_type = Some ''call'', tool_response = None, is_complete = None \<rparr>"

text \<open>The record that the merge stores for a "call" payload with the given identifier and name.\<close>

definition call_record :: "string \<Rightarrow> string \<Rightarrow> StreamingToolCallPart" where
  "call_record ident name =
     \<lparr> toolCallId = Some ident, toolName = Some name, args = JObj [],
       argsText = Stringify (JObj []),
       streamState = Some \<lparr> res_event_type = Some ''call'', response = None, details = None \<rparr>,
       result = None, isError = False \<rparr>"

text \<open>A normal-mode generator in the loop, awaiting a race, for the conversation "chat".\<close>

definition in_loop :: "location \<Rightarrow> string \<Rightarrow> string option \<Rightarrow> tool_map \<Rightarrow> bool
    \<Rightarrow> content_part list list \<Rightarrow> stream_state" where
  "in_loop l txt th m upd ys =
     \<lparr> accumulatedText = txt, accumulatedThinking = th, accumulatedToolCalls = m,
       hasUpdate = upd, aborted = False, streamFinished = False, waitForUpdate = Pending,
       streamPromise = Some Pending, at = l, signal_aborted = False,
       abort_listener = True,
       streamingState =
         \<lparr> sessionId = None, currentCursor = ''0-0'', isStreaming = True,
           isReconnecting = False, reconnectAttempts = 0 \<rparr>,
       calls = [StreamMessage ''chat'' ''hi'' [] [] None], yielded = ys, thrown = False \<rparr>"

text \<open>The same generator suspended at the \<^verbatim>\<open>yield\<close> of the loop after the call has resolved
  with session "s2".\<close>

definition resolved_at_yield :: "string \<Rightarrow> string option \<Rightarrow> tool_map \<Rightarrow> bool
    \<Rightarrow> content_part list list \<Rightarrow> stream_state" where
  "resolved_at_yield txt th m upd ys =
     \<lparr> accumulatedText = txt, accumulatedThinking = th, accumulatedToolCalls = m,
       hasUpdate = upd, aborted = False, streamFinished = True, waitForUpdate = Pending,
       streamPromise = Some Fulfilled, at = YieldedInLoop, signal_aborted = False,
       abort_listener = True,
       streamingState =
         \<lparr> sessionId = Some ''s2'', currentCursor = ''0-0'', isStreaming = False,
           isReconnecting = False, reconnectAttempts = 0 \<rparr>,
       calls = [StreamMessage ''chat'' ''hi'' [] [] None], yielded = ys, thrown = False \<rparr>"


section \<open>What a consumer reads off a content update\<close>


fun reasoning_parts :: "content_part list \<Rightarrow> string list" where
  "reasoning_parts [] = []"
| "reasoning_parts (Reasoning t # ps) = t # reasoning_parts ps"
| "reasoning_parts (_ # ps) = reasoning_parts ps"

fun tool_parts :: "content_part list \<Rightarrow> StreamingToolCallPart list" where
  "tool_parts [] = []"
| "tool_parts (ToolPart t # ps) = t # tool_parts ps"
| "tool_parts (_ # ps) = tool_parts ps"

fun text_parts :: "content_part list \<Rightarrow> string list" where
  "text_parts [] = []"
| "text_parts (TextPart t # ps) = t # text_parts ps"
| "text_parts (_ # ps) = text_parts ps"


section \<open>Properties of the map and of the merge\<close>

lemma map_get_map_set:
  "map_get (map_set m k v) k' = (if k' = k then Some v else map_get m k')"
  by (induction m) (auto simp: map_get_def)

lemma map_keys_map_set: "map_keys (map_set m k v) = add_key (map_keys m) k"
  by (induction m) (force simp: map_keys_def add_key_def)+

lemma distinct_add_key: "distinct ks \<Longrightarrow> distinct (add_key ks k)"
  by (simp add: add_key_def)

lemma set_add_key: "set (add_key ks k) = insert k (set ks)"
  by (auto simp: add_key_def)

lemma distinct_foldl_add_key: "distinct ks \<Longrightarrow> distinct (foldl add_key ks xs)"
  by (induction xs arbitrary: ks) (simp_all add: distinct_add_key)

lemma set_foldl_add_key: "set (foldl add_key ks xs) = set ks \<union> set xs"
  by (induction xs arbitrary: ks) (auto simp: set_add_key)

lemma map_keys_merge_tool_call:
  "map_keys (merge_tool_call m p) = add_key (map_keys m) (call_id p)"
  by (simp add: merge_tool_call_def Let_def map_keys_map_set)

lemma map_get_merge_tool_call_other:
  "call_id p \<noteq> k \<Longrightarrow> map_get (merge_tool_call m p) k = map_get m k"
  by (simp add: merge_tool_call_def Let_def map_get_map_set)

text \<open>What the merge stores under the payload's identifier.\<close>

lemma result_merge_tool_call:
  "map_option result (map_get (merge_tool_call m p) (call_id p)) =
     Some (if event_type p = Some ''result'' \<or> event_type p = Some ''error''
           then Some \<lparr> res_event_type = event_type p, response = tool_response p,
                        details = tool_call_details p \<rparr>
           else None)"
  by (simp add: merge_tool_call_def Let_def map_get_map_set)

lemma isError_merge_tool_call:
  "map_option isError (map_get (merge_tool_call m p) (call_id p)) =
     Some (event_type p = Some ''error'')"
  by (simp add: merge_tool_call_def Let_def map_get_map_set)

lemma map_keys_process_tool_calls:
  "map_keys (process_tool_calls m raws) = foldl add_key (map_keys m) (payload_ids raws)"
  unfolding process_tool_calls_def
proof (induction raws arbitrary: m)
  case Nil
  show ?case by simp
next
  case (Cons r rs)
  show ?case by (cases r) (simp_all add: Cons.IH map_keys_merge_tool_call)
qed

lemma map_get_process_tool_calls_other:
  "k \<notin> set (payload_ids raws) \<Longrightarrow> map_get (process_tool_calls m raws) k = map_get m k"
  unfolding process_tool_calls_def
proof (induction raws arbitrary: m)
  case Nil
  show ?case by simp
next
  case (Cons r rs)
  then show ?case by (cases r) (auto simp: map_get_merge_tool_call_other)
qed







lemma tool_parts_append: "tool_parts (xs @ ys) = tool_parts xs @ tool_parts ys"
  by (induction xs rule: tool_parts.induct) simp_all

lemma text_parts_append: "text_parts (xs @ ys) = text_parts xs @ text_parts ys"
  by (induction xs rule: text_parts.induct) simp_all


lemma tool_parts_tools [simp]: "tool_parts (map ToolPart ts) = ts"
  by (induction ts) simp_all

lemma text_parts_tools [simp]: "text_parts (map ToolPart ts) = []"
  by (induction ts) simp_all

lemma reasoning_parts_tools [simp]: "reasoning_parts (map ToolPart ts) = []"
  by (induction ts) simp_all



lemma tool_parts_yield_content: "tool_parts (yield_content th m tx) = map_values m"
  by (simp add: yield_content_def tool_parts_append split: option.splits)

lemma tool_parts_pushToQueue_content:
  "tool_parts (pushToQueue_content tx m th) =
     filter (\<lambda>tool. truthy (toolCallId tool) \<and> truthy (toolName tool)) (map_values m)"
  by (simp add: pushToQueue_content_def tool_parts_append split: option.splits)






section \<open>Properties of the run and of the two generators\<close>


subsection \<open>Backend calls of a run\<close>

lemma run_events_Nil [simp]: "run_events chatId [] s = s"
  by (simp add: run_events_def)

lemma run_events_Cons [simp]:
  "run_events chatId (e # evs) s = run_events chatId evs (run_step chatId e s)"
  by (simp add: run_events_def)

lemma run_events_append:
  "run_events chatId (evs @ evs') s = run_events chatId evs' (run_events chatId evs s)"
  by (simp add: run_events_def)

lemma run_events_Refused [simp]: "run_events chatId evs (Refused err) = Refused err"
  by (induction evs) simp_all

lemma resume_calls_pushToQueue [simp]:
  "resume_calls (pushToQueue message m th s) = resume_calls s"
  by (simp add: pushToQueue_def Let_def)

lemma resume_calls_resume_loop [simp]: "resume_calls (resume_loop s) = resume_calls s"
  by (simp add: resume_loop_def split: list.splits)

lemma resume_calls_resume_step [simp]: "resume_calls (resume_step e s) = resume_calls s"
  by (cases e)
     (simp_all add: onResumeProgress_def onSettled_def Let_def
        split: resume_location.splits option.splits)

lemma backend_calls_Resuming:
  "backend_calls (run_events chatId evs (Resuming s)) = resume_calls s"
  by (induction evs arbitrary: s) simp_all

lemma calls_stream_step:
  "calls (stream_step chatId e s) = calls s
   \<or> calls (stream_step chatId e s) = calls s @ [StopMessage chatId]"
  by (cases e)
     (auto simp: onProgress_def onResolve_def onReject_def handleAbort_def loop_head_def
        after_loop_def after_await_def catch_block_def finally_block_def
        split: location.splits promise.splits)

lemma no_resume_stream_step:
  "list_all (\<lambda>c. \<not> is_resume c) (calls s) \<Longrightarrow>
   list_all (\<lambda>c. \<not> is_resume c) (calls (stream_step chatId e s))"
  using calls_stream_step [of chatId e s] by auto

lemma no_resume_Streaming:
  "list_all (\<lambda>c. \<not> is_resume c) (calls s) \<Longrightarrow>
   list_all (\<lambda>c. \<not> is_resume c) (backend_calls (run_events chatId evs (Streaming s)))"
  by (induction evs arbitrary: s) (simp_all add: no_resume_stream_step)

lemma calls_start:
  "list_all (\<lambda>c. \<not> is_resume c) (calls (start chatId msg nodes images (stream_init st sig)))"
  by (simp add: start_def stream_init_def handleAbort_def loop_head_def after_loop_def
        finally_block_def)

lemma run_start_no_resume:
  "resumeSessionRef r = None \<Longrightarrow>
   list_all (\<lambda>c. \<not> is_resume c)
     (backend_calls (run_events chatId evs (snd (run_start chatId r mm msgs nodes sig))))"
  by (auto simp: run_start_def Let_def calls_start no_resume_Streaming
        split: option.splits)

subsection \<open>The invariant of the normal-mode generator\<close>

lemmas stream_defs =
  onProgress_def onResolve_def onReject_def handleAbort_def loop_head_def
  after_loop_def after_await_def catch_block_def finally_block_def settle_race_def race_now_def

lemma stream_inv_start:
  "stream_inv (start chatId msg nodes images (stream_init st sig))"
  by (simp add: stream_inv_def start_def stream_init_def stream_defs)

lemma stream_inv_Pull: "stream_inv s \<Longrightarrow> stream_inv (stream_step chatId Pull s)"
  by (auto simp: stream_inv_def stream_defs split: location.splits promise.splits option.splits if_splits)

lemma stream_inv_Wake: "stream_inv s \<Longrightarrow> stream_inv (stream_step chatId Wake s)"
  by (auto simp: stream_inv_def stream_defs split: location.splits promise.splits option.splits if_splits)

lemma stream_inv_Progress:
  "stream_inv s \<Longrightarrow> stream_inv (stream_step chatId (Progress m tcs th) s)"
  by (auto simp: stream_inv_def stream_defs split: location.splits promise.splits if_splits)

lemma stream_inv_Resolve: "stream_inv s \<Longrightarrow> stream_inv (stream_step chatId (Resolve sid) s)"
  by (auto simp: stream_inv_def stream_defs split: location.splits promise.splits if_splits)

lemma stream_inv_Reject: "stream_inv s \<Longrightarrow> stream_inv (stream_step chatId Reject s)"
  by (auto simp: stream_inv_def stream_defs split: location.splits promise.splits if_splits)

lemma stream_inv_Abort: "stream_inv s \<Longrightarrow> stream_inv (stream_step chatId Abort s)"
  by (auto simp: stream_inv_def stream_defs split: location.splits promise.splits if_splits)

lemma stream_inv_step: "stream_inv s \<Longrightarrow> stream_inv (stream_step chatId e s)"
  by (cases e)
     (simp_all only: stream_inv_Pull stream_inv_Wake stream_inv_Progress stream_inv_Resolve
        stream_inv_Reject stream_inv_Abort)

subsection \<open>After an abort nothing is yielded, thrown or called\<close>

lemma stream_events_Nil [simp]: "stream_events chatId [] s = s"
  by (simp add: stream_events_def)

lemma stream_events_Cons [simp]:
  "stream_events chatId (e # evs) s = stream_events chatId evs (stream_step chatId e s)"
  by (simp add: stream_events_def)

lemma run_events_Streaming:
  "run_events chatId evs (Streaming s) = Streaming (stream_events chatId evs s)"
  by (induction evs arbitrary: s) simp_all

lemma stream_inv_events: "stream_inv s \<Longrightarrow> stream_inv (stream_events chatId evs s)"
  by (induction evs arbitrary: s) (simp_all add: stream_inv_step)

lemma aborted_step:
  "aborted s \<Longrightarrow>
     aborted (stream_step chatId e s) \<and> yielded (stream_step chatId e s) = yielded s
     \<and> thrown (stream_step chatId e s) = thrown s \<and> calls (stream_step chatId e s) = calls s"
  by (cases e)
     (auto simp: stream_defs split: location.splits promise.splits)

lemma aborted_events:
  "aborted s \<Longrightarrow>
     aborted (stream_events chatId evs s) \<and> yielded (stream_events chatId evs s) = yielded s
     \<and> thrown (stream_events chatId evs s) = thrown s
     \<and> calls (stream_events chatId evs s) = calls s"
proof (induction evs arbitrary: s)
  case Nil
  then show ?case by simp
next
  case (Cons e evs)
  from aborted_step [OF Cons.prems, of chatId e] Cons.IH [of "stream_step chatId e s"]
  show ?case by simp
qed

lemma stop_calls_stream_step:
  "filter is_stop (calls s) = replicate (if aborted s then 1 else 0) (StopMessage chatId) \<Longrightarrow>
   filter is_stop (calls (stream_step chatId e s))
     = replicate (if aborted (stream_step chatId e s) then 1 else 0) (StopMessage chatId)"
  by (cases e)
     (auto simp: stream_defs split: location.splits promise.splits)

lemma stop_calls_start:
  "filter is_stop (calls (start chatId msg nodes images (stream_init st sig)))
     = replicate (if aborted (start chatId msg nodes images (stream_init st sig)) then 1 else 0)
         (StopMessage chatId)"
  by (simp add: start_def stream_init_def stream_defs)

lemma stop_calls_events:
  "filter is_stop (calls s) = replicate (if aborted s then 1 else 0) (StopMessage chatId) \<Longrightarrow>
   filter is_stop (calls (stream_events chatId evs s))
     = replicate (if aborted (stream_events chatId evs s) then 1 else 0) (StopMessage chatId)"
  by (induction evs arbitrary: s) (simp_all add: stop_calls_stream_step)

lemma abort_sets_aborted:
  "stream_inv s \<Longrightarrow> at s \<noteq> Returned \<Longrightarrow>
     aborted (stream_step chatId Abort s)
     \<and> yielded (stream_step chatId Abort s) = yielded s
     \<and> \<not> thrown (stream_step chatId Abort s)"
  by (auto simp: stream_inv_def stream_defs split: if_splits)

lemma aborted_ends:
  "stream_inv s \<Longrightarrow> aborted s \<Longrightarrow> at (stream_events chatId [Wake, Pull] s) = Returned"
  by (cases "at s")
     (auto simp: stream_inv_def stream_defs split: location.splits promise.splits if_splits)

subsection \<open>Resume mode: every chunk on its way is yielded\<close>

lemmas resume_defs =
  pushToQueue_def onResumeProgress_def onSettled_def resume_loop_def

lemma resume_events_Nil [simp]: "resume_events [] s = s"
  by (simp add: resume_events_def)

lemma resume_events_Cons [simp]:
  "resume_events (e # evs) s = resume_events evs (resume_step e s)"
  by (simp add: resume_events_def)

lemma resume_events_append:
  "resume_events (evs @ evs') s = resume_events evs' (resume_events evs s)"
  by (simp add: resume_events_def)

lemma run_events_Resuming:
  "run_events chatId evs (Resuming s) = Resuming (resume_events evs s)"
  by (induction evs arbitrary: s) simp_all

lemma resume_inv_start: "resume_inv (resume_start chatId sid cur resume_init)"
  by (simp add: resume_inv_def resume_start_def resume_init_def resume_defs)

lemma resume_inv_step: "resume_inv s \<Longrightarrow> resume_inv (resume_step e s)"
  by (cases e)
     (auto simp: resume_inv_def resume_defs Let_def
        split: resume_location.splits option.splits list.splits if_splits)

lemma resume_inv_events: "resume_inv s \<Longrightarrow> resume_inv (resume_events evs s)"
  by (induction evs arbitrary: s) (simp_all add: resume_inv_step)

lemma progress_in_flight:
  assumes "resume_inv s" and "resume_promise s = Some Pending"
  shows "in_flight (resume_step (Progress message tcs th) s)
           = in_flight s
             @ [pushToQueue_content message
                  (process_tool_calls (resume_accumulatedToolCalls s) tcs)
                  (case th of None \<Rightarrow> resume_accumulatedThinking s | Some t \<Rightarrow> t)]"
    and "resume_yielded (resume_step (Progress message tcs th) s) = resume_yielded s"
    and "resume_promise (resume_step (Progress message tcs th) s) = Some Pending"
  using assms
  by (auto simp: resume_inv_def in_flight_def resume_defs Let_def
        split: resume_location.splits option.splits)

lemma settle_in_flight:
  assumes "resume_inv s" and "resume_promise s = Some Pending"
  shows "in_flight (resume_step (Resolve sid) s) = in_flight s"
    and "resume_yielded (resume_step (Resolve sid) s) = resume_yielded s"
    and "finished (resume_step (Resolve sid) s)"
    and "in_flight (resume_step Reject s) = in_flight s"
    and "resume_yielded (resume_step Reject s) = resume_yielded s"
    and "finished (resume_step Reject s)"
  using assms
  by (auto simp: resume_inv_def in_flight_def resume_defs Let_def
        split: resume_location.splits option.splits)

lemma drain_pulls:
  "finished s \<Longrightarrow> resume_at s = ResumeYielded \<Longrightarrow> length (queue s) < n \<Longrightarrow>
     resume_yielded (resume_events (replicate n Pull) s) = resume_yielded s @ queue s
     \<and> resume_at (resume_events (replicate n Pull) s) = ResumeReturned"
proof (induction n arbitrary: s)
  case 0
  then show ?case by simp
next
  case (Suc n)
  show ?case
  proof (cases "queue s")
    case Nil
    have "resume_step Pull s = s \<lparr> resume_at := ResumeReturned \<rparr>"
      using Suc.prems Nil by (simp add: resume_loop_def)
    moreover have "resume_events (replicate n Pull) (s \<lparr> resume_at := ResumeReturned \<rparr>)
        = s \<lparr> resume_at := ResumeReturned \<rparr>"
      by (induction n) simp_all
    ultimately show ?thesis using Nil by simp
  next
    case (Cons c rest)
    let ?s' = "s \<lparr> queue := rest, resume_yielded := resume_yielded s @ [c],
                   resume_at := ResumeYielded \<rparr>"
    have step: "resume_step Pull s = ?s'"
      using Suc.prems Cons by (simp add: resume_loop_def)
    have "resume_yielded (resume_events (replicate n Pull) ?s') = resume_yielded ?s' @ queue ?s'
        \<and> resume_at (resume_events (replicate n Pull) ?s') = ResumeReturned"
      using Suc.prems Cons by (intro Suc.IH) simp_all
    then show ?thesis using step Cons by simp
  qed
qed

lemma drain:
  assumes "resume_inv s" and "finished s" and "length (in_flight s) < n"
  shows "resume_yielded (resume_events (Wake # replicate n Pull) s) = resume_yielded s @ in_flight s
     \<and> resume_at (resume_events (Wake # replicate n Pull) s) = ResumeReturned"
proof (cases "resume_at s")
  case (ResumeAwaiting p)
  show ?thesis
  proof (cases p)
    case None
    then show ?thesis using assms ResumeAwaiting by (auto simp: resume_inv_def)
  next
    case (Some v)
    show ?thesis
    proof (cases v)
      case None
      have q: "queue s = []" using assms ResumeAwaiting Some None by (simp add: resume_inv_def)
      have "resume_events (replicate n Pull) (s \<lparr> resume_at := ResumeReturned \<rparr>)
        = s \<lparr> resume_at := ResumeReturned \<rparr>"
        by (induction n) simp_all
      then show ?thesis using ResumeAwaiting Some None q by (simp add: in_flight_def)
    next
      case (Some c)
      let ?s' = "s \<lparr> resume_yielded := resume_yielded s @ [c], resume_at := ResumeYielded \<rparr>"
      have "resume_yielded (resume_events (replicate n Pull) ?s') = resume_yielded ?s' @ queue ?s'
        \<and> resume_at (resume_events (replicate n Pull) ?s') = ResumeReturned"
        using assms ResumeAwaiting \<open>p = Some v\<close> Some
        by (intro drain_pulls) (simp_all add: in_flight_def)
      then show ?thesis using ResumeAwaiting \<open>p = Some v\<close> Some by (simp add: in_flight_def)
    qed
  qed
next
  case ResumeYielded
  then show ?thesis using assms drain_pulls [of s n] by (simp add: in_flight_def)
next
  case ResumeReturned
  have "resume_events (replicate n Pull) s = s"
    using ResumeReturned by (induction n) simp_all
  then show ?thesis using assms ResumeReturned by (simp add: in_flight_def resume_inv_def)
qed

subsection \<open>Normal mode: the backend call settles\<close>

lemma stream_pending_inv_start:
  "stream_pending_inv (start chatId msg nodes images (stream_init st sig))"
  by (simp add: stream_pending_inv_def start_def stream_init_def stream_defs)

lemma stream_pending_inv_step: "stream_pending_inv s \<Longrightarrow> stream_pending_inv (stream_step chatId e s)"
  by (cases e)
     (auto simp: stream_pending_inv_def stream_defs split: location.splits promise.splits if_splits)

lemma stream_pending_inv_events: "stream_pending_inv s \<Longrightarrow> stream_pending_inv (stream_events chatId evs s)"
  by (induction evs arbitrary: s) (simp_all add: stream_pending_inv_step)

lemma pending_location:
  assumes "stream_inv s" "stream_pending_inv s" "streamPromise s = Some Pending" "\<not> aborted s"
  shows "at s = AwaitingRace Pending \<or> at s = AwaitingRace Fulfilled \<or> at s = YieldedInLoop"
    and "\<not> signal_aborted s" and "\<not> thrown s"
    and "\<not> streamFinished s" and "waitForUpdate s = Pending"
proof -
  show "\<not> streamFinished s" "waitForUpdate s = Pending"
    using assms by (auto simp: stream_pending_inv_def)
  show "at s = AwaitingRace Pending \<or> at s = AwaitingRace Fulfilled \<or> at s = YieldedInLoop"
  proof (cases "at s")
    case (AwaitingRace p)
    then show ?thesis using assms by (cases p) (auto simp: stream_pending_inv_def)
  qed (use assms in \<open>auto simp: stream_pending_inv_def\<close>)
  then show "\<not> signal_aborted s" "\<not> thrown s"
    using assms by (auto simp: stream_inv_def)
qed

lemma resolve_then_pull:
  assumes "streamPromise s = Some Pending" "\<not> aborted s"
    and "at s = AwaitingRace Pending \<or> at s = AwaitingRace Fulfilled \<or> at s = YieldedInLoop"
  shows "yielded (stream_events chatId [Resolve sid, Wake, Pull, Pull] s)
           = yielded s
             @ (if at s \<noteq> YieldedInLoop \<and> hasUpdate s
                then [yield_content (accumulatedThinking s) (accumulatedToolCalls s)
                        (accumulatedText s)]
                else [])
             @ (if hasContent (accumulatedThinking s) (accumulatedToolCalls s) (accumulatedText s)
                then [yield_content (accumulatedThinking s) (accumulatedToolCalls s)
                        (accumulatedText s)]
                else [])"
    and "at (stream_events chatId [Resolve sid, Wake, Pull, Pull] s) = Returned"
    and "thrown (stream_events chatId [Resolve sid, Wake, Pull, Pull] s) = thrown s"
proof -
  let ?c = "hasContent (accumulatedThinking s) (accumulatedToolCalls s) (accumulatedText s)"
  have "yielded (stream_events chatId [Resolve sid, Wake, Pull, Pull] s)
           = yielded s
             @ (if at s \<noteq> YieldedInLoop \<and> hasUpdate s
                then [yield_content (accumulatedThinking s) (accumulatedToolCalls s)
                        (accumulatedText s)]
                else [])
             @ (if ?c
                then [yield_content (accumulatedThinking s) (accumulatedToolCalls s)
                        (accumulatedText s)]
                else [])
     \<and> at (stream_events chatId [Resolve sid, Wake, Pull, Pull] s) = Returned
     \<and> thrown (stream_events chatId [Resolve sid, Wake, Pull, Pull] s) = thrown s"
    using assms(3)
  proof (elim disjE)
    assume "at s = AwaitingRace Pending"
    then show ?thesis using assms(1,2)
      by (cases "hasUpdate s"; cases ?c) (simp_all add: stream_defs)
  next
    assume "at s = AwaitingRace Fulfilled"
    then show ?thesis using assms(1,2)
      by (cases "hasUpdate s"; cases ?c) (simp_all add: stream_defs)
  next
    assume "at s = YieldedInLoop"
    then show ?thesis using assms(1,2)
      by (cases ?c) (simp_all add: stream_defs)
  qed
  then show "yielded (stream_events chatId [Resolve sid, Wake, Pull, Pull] s)
           = yielded s
             @ (if at s \<noteq> YieldedInLoop \<and> hasUpdate s
                then [yield_content (accumulatedThinking s) (accumulatedToolCalls s)
                        (accumulatedText s)]
                else [])
             @ (if hasContent (accumulatedThinking s) (accumulatedToolCalls s) (accumulatedText s)
                then [yield_content (accumulatedThinking s) (accumulatedToolCalls s)
                        (accumulatedText s)]
                else [])"
    and "at (stream_events chatId [Resolve sid, Wake, Pull, Pull] s) = Returned"
    and "thrown (stream_events chatId [Resolve sid, Wake, Pull, Pull] s) = thrown s"
    by simp_all
qed

lemma reject_then_pull:
  assumes "streamPromise s = Some Pending \<and> \<not> streamFinished s \<and> waitForUpdate s = Pending"
    "\<not> aborted s" "\<not> signal_aborted s"
    and "at s = AwaitingRace Pending \<or> at s = AwaitingRace Fulfilled \<or> at s = YieldedInLoop"
  shows "yielded (stream_events chatId [Reject, Wake, Pull, Wake] s)
           = yielded s
             @ (if at s = AwaitingRace Fulfilled \<and> hasUpdate s
                then [yield_content (accumulatedThinking s) (accumulatedToolCalls s)
                        (accumulatedText s)]
                else [])"
    and "at (stream_events chatId [Reject, Wake, Pull, Wake] s) = Returned"
    and "thrown (stream_events chatId [Reject, Wake, Pull, Wake] s)"
proof -
  have "yielded (stream_events chatId [Reject, Wake, Pull, Wake] s)
           = yielded s
             @ (if at s = AwaitingRace Fulfilled \<and> hasUpdate s
                then [yield_content (accumulatedThinking s) (accumulatedToolCalls s)
                        (accumulatedText s)]
                else [])
     \<and> at (stream_events chatId [Reject, Wake, Pull, Wake] s) = Returned
     \<and> thrown (stream_events chatId [Reject, Wake, Pull, Wake] s)"
    using assms(4)
  proof (elim disjE)
    assume "at s = AwaitingRace Pending"
    then show ?thesis using assms(1,2,3)
      by (simp add: stream_defs)
  next
    assume "at s = AwaitingRace Fulfilled"
    then show ?thesis using assms(1,2,3)
      by (cases "hasUpdate s") (simp_all add: stream_defs)
  next
    assume "at s = YieldedInLoop"
    then show ?thesis using assms(1,2,3)
      by (simp add: stream_defs)
  qed
  then show "yielded (stream_events chatId [Reject, Wake, Pull, Wake] s)
           = yielded s
             @ (if at s = AwaitingRace Fulfilled \<and> hasUpdate s
                then [yield_content (accumulatedThinking s) (accumulatedToolCalls s)
                        (accumulatedText s)]
                else [])"
    and "at (stream_events chatId [Reject, Wake, Pull, Wake] s) = Returned"
    and "thrown (stream_events chatId [Reject, Wake, Pull, Wake] s)"
    by simp_all
qed

subsection \<open>Every update is built by one of the two renderers\<close>

lemma yielded_start [simp]: "yielded (start chatId msg nodes images (stream_init st sig)) = []"
  by (simp add: start_def stream_init_def stream_defs)

lemma yielded_stream_step:
  assumes "\<And>th m tx. P (yield_content th m tx)" and "list_all P (yielded s)"
  shows "list_all P (yielded (stream_step chatId e s))"
  using assms
  by (cases e) (auto simp: stream_defs split: location.splits promise.splits)

lemma yielded_stream_events:
  assumes "\<And>th m tx. P (yield_content th m tx)" and "list_all P (yielded s)"
  shows "list_all P (yielded (stream_events chatId evs s))"
  using assms(2)
  by (induction evs arbitrary: s) (simp_all add: yielded_stream_step [of P, OF assms(1)])

lemma chunks_resume_step:
  assumes "\<And>tx m th. P (pushToQueue_content tx m th)"
    and "list_all P (resume_yielded s) \<and> list_all P (in_flight s)"
  shows "list_all P (resume_yielded (resume_step e s)) \<and> list_all P (in_flight (resume_step e s))"
  using assms
  by (cases e)
     (auto simp: resume_defs in_flight_def Let_def
        split: resume_location.splits option.splits list.splits)

lemma chunks_resume_events:
  assumes "\<And>tx m th. P (pushToQueue_content tx m th)"
    and "list_all P (resume_yielded s) \<and> list_all P (in_flight s)"
  shows "list_all P (resume_yielded (resume_events evs s))
         \<and> list_all P (in_flight (resume_events evs s))"
  using assms(2)
proof (induction evs arbitrary: s)
  case Nil
  then show ?case by simp
next
  case (Cons e evs)
  from chunks_resume_step [of P, OF assms(1) Cons.prems]
  show ?case by (simp add: Cons.IH)
qed

lemma chunks_resume_start:
  "resume_yielded (resume_start chatId sid cur resume_init) = []
   \<and> in_flight (resume_start chatId sid cur resume_init) = []"
  by (simp add: resume_start_def resume_init_def resume_loop_def in_flight_def)

lemma updates_normal:
  assumes "\<And>th m tx. P (yield_content th m tx)" and "resumeSessionRef r = None"
  shows "list_all P (updates (run_events chatId evs (snd (run_start chatId r mm msgs nodes sig))))"
proof (cases "snd (run_start chatId r mm msgs nodes sig)")
  case (Refused err)
  then show ?thesis by simp
next
  case (Resuming t)
  then show ?thesis using assms(2) by (auto simp: run_start_def Let_def split: option.splits if_splits)
next
  case (Streaming s)
  then have "yielded s = []"
    using assms(2) by (auto simp: run_start_def Let_def split: option.splits if_splits)
  then have "list_all P (yielded (stream_events chatId evs s))"
    by (intro yielded_stream_events assms(1)) simp
  then show ?thesis by (simp add: Streaming run_events_Streaming)
qed

lemma updates_resume:
  assumes "\<And>tx m th. P (pushToQueue_content tx m th)" and "resumeSessionRef r \<noteq> None"
  shows "list_all P (updates (run_events chatId evs (snd (run_start chatId r mm msgs nodes sig))))"
proof -
  obtain info where info: "resumeSessionRef r = Some info"
    using assms(2) by auto
  let ?t = "resume_start chatId (resume_sessionId info) (cursor info) resume_init"
  have "list_all P (resume_yielded (resume_events evs ?t))
         \<and> list_all P (in_flight (resume_events evs ?t))"
    by (intro chunks_resume_events assms(1)) (simp add: chunks_resume_start)
  then show ?thesis
    by (simp add: run_start_def info run_events_Resuming)
qed


subsection \<open>The state and the chunks as functions of the events handled\<close>

lemma closed_step:
  "\<not> callback_open s \<Longrightarrow>
     \<not> callback_open (stream_step chatId e s) \<and> accumulated (stream_step chatId e s) = accumulated s"
  by (cases e)
     (auto simp: callback_open_def accumulated_def stream_defs
        split: location.splits promise.splits)

lemma closed_events:
  "\<not> callback_open s \<Longrightarrow> accumulated (stream_events chatId evs s) = accumulated s"
proof (induction evs arbitrary: s)
  case Nil
  then show ?case by simp
next
  case (Cons e evs)
  from closed_step [OF Cons.prems, of chatId e] Cons.IH [of "stream_step chatId e s"]
  show ?case by simp
qed

lemma open_step:
  assumes "callback_open s"
  shows "(case e of
            Progress message tcs th \<Rightarrow>
              callback_open (stream_step chatId e s)
              \<and> accumulated (stream_step chatId e s) = accumulate (accumulated s) (message, tcs, th)
          | _ \<Rightarrow>
              accumulated (stream_step chatId e s) = accumulated s
              \<and> callback_open (stream_step chatId e s) = (\<not> stops_callback True e))"
  using assms
  by (cases e)
     (auto simp: callback_open_def accumulated_def stream_defs
        split: location.splits promise.splits)

lemma open_events:
  "callback_open s \<Longrightarrow>
     accumulated (stream_events chatId evs s) = foldl accumulate (accumulated s) (handled True evs)"
proof (induction evs arbitrary: s)
  case Nil
  then show ?case by simp
next
  case (Cons e evs)
  show ?case
  proof (cases e)
    case (Progress message tcs th)
    with open_step [OF Cons.prems, where e = e and chatId = chatId] Cons.IH [of "stream_step chatId e s"]
    show ?thesis by simp
  next
    case Pull
    with open_step [OF Cons.prems, where e = e and chatId = chatId] Cons.IH [of "stream_step chatId e s"]
    show ?thesis by simp
  next
    case Wake
    with open_step [OF Cons.prems, where e = e and chatId = chatId] Cons.IH [of "stream_step chatId e s"]
    show ?thesis by simp
  next
    case (Resolve sid)
    with open_step [OF Cons.prems, where e = e and chatId = chatId]
      closed_events [of "stream_step chatId e s" chatId evs]
    show ?thesis by simp
  next
    case Reject
    with open_step [OF Cons.prems, where e = e and chatId = chatId]
      closed_events [of "stream_step chatId e s" chatId evs]
    show ?thesis by simp
  next
    case Abort
    with open_step [OF Cons.prems, where e = e and chatId = chatId]
      closed_events [of "stream_step chatId e s" chatId evs]
    show ?thesis by simp
  qed
qed



lemma text_foldl_accumulate:
  "fst (foldl accumulate a ps) = (if ps = [] then fst a else fst (last ps))"
proof (induction ps arbitrary: a)
  case Nil
  show ?case by simp
next
  case (Cons p ps)
  show ?case
    by (cases a; cases p) (simp add: Cons.IH)
qed

lemma open_start:
  "\<not> sig \<Longrightarrow> callback_open (start chatId msg nodes images (stream_init st sig))
     \<and> accumulated (start chatId msg nodes images (stream_init st sig)) = ('''', None, [])"
  by (simp add: callback_open_def accumulated_def start_def stream_init_def stream_defs)

lemma accumulated_normal_run:
  assumes "\<not> sig"
    and "run_events chatId evs (snd (run_start chatId r mm msgs nodes sig)) = Streaming s"
  shows "accumulated s = foldl accumulate ('''', None, []) (handled True evs)"
proof -
  obtain s0 where s0: "snd (run_start chatId r mm msgs nodes sig) = Streaming s0"
    using assms(2) by (cases "snd (run_start chatId r mm msgs nodes sig)")
      (simp_all add: run_events_Resuming)
  have "callback_open s0 \<and> accumulated s0 = ('''', None, [])"
    using s0 assms(1)
    by (auto simp: run_start_def Let_def open_start split: option.splits if_splits)
  moreover have "s = stream_events chatId evs s0"
    using assms(2) by (simp add: s0 run_events_Streaming)
  ultimately show ?thesis
    using open_events [of s0 chatId evs] by simp
qed

lemma built_fst: "built (x, th, m) ps = built (y, th, m) ps"
  by (cases ps) auto

lemma length_built [simp]: "length (built a ps) = length ps"
  by (induction ps arbitrary: a) auto

lemma built_nth:
  "k < length ps \<Longrightarrow>
     built a ps ! k = chunk_of (foldl accumulate a (take (Suc k) ps))"
proof (induction ps arbitrary: a k)
  case Nil
  then show ?case by simp
next
  case (Cons p ps)
  show ?case
  proof (cases k)
    case 0
    then show ?thesis by simp
  next
    case (Suc j)
    then show ?thesis using Cons.prems Cons.IH [of j "accumulate a p"]
      by simp
  qed
qed

lemma flow_step:
  "resume_promise t \<noteq> Some Pending \<or> (\<forall>message tcs th. e \<noteq> Progress message tcs th) \<Longrightarrow>
     resume_yielded (resume_step e t) @ in_flight (resume_step e t) = resume_yielded t @ in_flight t
     \<and> resume_accumulatedThinking (resume_step e t) = resume_accumulatedThinking t
     \<and> resume_accumulatedToolCalls (resume_step e t) = resume_accumulatedToolCalls t
     \<and> (resume_promise (resume_step e t) = Some Pending)
         = (resume_promise t = Some Pending \<and> \<not> stops_callback False e)"
  by (cases e)
     (auto simp: resume_defs in_flight_def Let_def
        split: resume_location.splits option.splits list.splits)

lemma closed_flow:
  "resume_promise t \<noteq> Some Pending \<Longrightarrow>
     resume_yielded (resume_events evs t) @ in_flight (resume_events evs t)
       = resume_yielded t @ in_flight t"
proof (induction evs arbitrary: t)
  case Nil
  then show ?case by simp
next
  case (Cons e evs)
  from flow_step [of t e] Cons.prems Cons.IH [of "resume_step e t"]
  show ?case by simp
qed

lemma progress_accumulators:
  "resume_promise t = Some Pending \<Longrightarrow>
     resume_accumulatedThinking (resume_step (Progress message tcs th) t)
       = (case th of None \<Rightarrow> resume_accumulatedThinking t | Some v \<Rightarrow> v)
     \<and> resume_accumulatedToolCalls (resume_step (Progress message tcs th) t)
       = process_tool_calls (resume_accumulatedToolCalls t) tcs"
  by (simp add: resume_defs Let_def)

lemma open_flow:
  "resume_inv t \<Longrightarrow> resume_promise t = Some Pending \<Longrightarrow>
     resume_yielded (resume_events evs t) @ in_flight (resume_events evs t)
       = resume_yielded t @ in_flight t
         @ built (x, resume_accumulatedThinking t, resume_accumulatedToolCalls t)
             (handled False evs)"
proof (induction evs arbitrary: t x)
  case Nil
  then show ?case by simp
next
  case (Cons e evs)
  have inv': "resume_inv (resume_step e t)"
    using Cons.prems(1) by (rule resume_inv_step)
  show ?case
  proof (cases "\<exists>message tcs th. e = Progress message tcs th")
    case True
    then obtain message tcs th where e: "e = Progress message tcs th" by blast
    note pr = progress_in_flight [OF Cons.prems, of message tcs th]
    note acc = progress_accumulators [OF Cons.prems(2), of message tcs th]
    from Cons.IH [OF inv' [unfolded e] pr(3), of message] pr acc
    show ?thesis by (simp add: e)
  next
    case False
    then have np: "\<forall>message tcs th. e \<noteq> Progress message tcs th" by blast
    note fl = flow_step [of t e, OF disjI2, OF np]
    show ?thesis
    proof (cases "stops_callback False e")
      case True
      then have "resume_promise (resume_step e t) \<noteq> Some Pending"
        using fl by simp
      from closed_flow [OF this, of evs] fl True np
      show ?thesis by (cases e) simp_all
    next
      case False
      then have "resume_promise (resume_step e t) = Some Pending"
        using fl Cons.prems(2) by simp
      from Cons.IH [OF inv' this, of x] fl False np
      show ?thesis by (cases e) simp_all
    qed
  qed
qed

lemma chunks_resume_run:
  assumes "run_events chatId evs (snd (run_start chatId r mm msgs nodes sig)) = Resuming t"
  shows "resume_yielded t @ in_flight t = built ('''', None, []) (handled False evs)"
proof -
  obtain t0 where t0: "snd (run_start chatId r mm msgs nodes sig) = Resuming t0"
    using assms by (cases "snd (run_start chatId r mm msgs nodes sig)")
      (simp_all add: run_events_Streaming)
  then have "\<exists>sid cur. t0 = resume_start chatId sid cur resume_init"
    by (cases "resumeSessionRef r") (auto simp: run_start_def Let_def split: if_splits option.splits)
  then obtain sid cur where t0': "t0 = resume_start chatId sid cur resume_init"
    by blast
  have "resume_inv t0" "resume_promise t0 = Some Pending"
    "resume_yielded t0 = []" "in_flight t0 = []"
    "resume_accumulatedThinking t0 = None" "resume_accumulatedToolCalls t0 = []"
    unfolding t0'
    by (simp_all add: resume_inv_start chunks_resume_start)
       (simp_all add: resume_start_def resume_init_def resume_loop_def)
  moreover have "t = resume_events evs t0"
    using assms by (simp add: t0 run_events_Resuming)
  ultimately show ?thesis
    using open_flow [of t0 evs "''''"] by simp
qed

section \<open>The streaming merge: which event types are terminal\<close>

text \<open>
  C1. The claim: in the streaming merge (normal and resume mode), "result",
  "delegation_result" and "error" are terminal, the error flag is set exactly for "error",
  and every other event type leaves the record pending. The streaming condition tests
  \<^verbatim>\<open>"result"\<close> and \<^verbatim>\<open>"error"\<close> only. Evaluated on a call followed by its
  "delegation_result", the streaming merge leaves the record pending, with no terminal
  result, while \<^verbatim>\<open>dedupeToolCalls\<close>, the history path, takes the same event as the final
  state of the call.
\<close>

theorem delegation_result_left_pending:
  "process_tool_calls []
     [Parsed \<lparr> call_id = Some ''a'', tool_name = Some ''delegate'', tool_call_details = None,
                event_type = Some ''call'', tool_response = None, is_complete = None \<rparr>,
      Parsed \<lparr> call_id = Some ''a'', tool_name = Some ''delegate'', tool_call_details = None,
                event_type = Some ''delegation_result'', tool_response = Some ''done'',
                is_complete = None \<rparr>]
   = [(Some ''a'',
       \<lparr> toolCallId = Some ''a'', toolName = Some ''delegate'', args = JObj [],
         argsText = Stringify (JObj []),
         streamState = Some \<lparr> res_event_type = Some ''delegation_result'',
                                response = Some ''done'', details = None \<rparr>,
         result = None, isError = False \<rparr>)]
   \<and> dedupeToolCalls
     [\<lparr> call_id = Some ''a'', tool_name = Some ''delegate'', tool_call_details = None,
         event_type = Some ''call'', tool_response = None, is_complete = None \<rparr>,
      \<lparr> call_id = Some ''a'', tool_name = Some ''delegate'', tool_call_details = None,
         event_type = Some ''delegation_result'', tool_response = Some ''done'',
         is_complete = None \<rparr>]
   = [\<lparr> call_id = Some ''a'', tool_name = Some ''delegate'', tool_call_details = None,
         event_type = Some ''delegation_result'', tool_response = Some ''done'',
         is_complete = None \<rparr>]"
  by (simp add: process_tool_calls_def merge_tool_call_def dedupeToolCalls_def dedupe_step_def
        map_get_def map_values_def Let_def)

section \<open>A terminal record and later events\<close>

text \<open>
  The claim C2 as stated fails: a "result" for call "a" followed by a "call" event for the
  same identifier leaves the record of "a" without terminal result.
\<close>

theorem terminal_record_reverted:
  "map_option result (map_get (process_tool_calls []
     [Parsed \<lparr> call_id = Some ''a'', tool_name = Some ''search'', tool_call_details = None,
                event_type = Some ''result'', tool_response = Some ''42'', is_complete = None \<rparr>])
     (Some ''a''))
   = Some (Some \<lparr> res_event_type = Some ''result'', response = Some ''42'', details = None \<rparr>)
   \<and> map_option result (map_get (process_tool_calls []
     [Parsed \<lparr> call_id = Some ''a'', tool_name = Some ''search'', tool_call_details = None,
                event_type = Some ''result'', tool_response = Some ''42'', is_complete = None \<rparr>,
      Parsed \<lparr> call_id = Some ''a'', tool_name = Some ''search'', tool_call_details = None,
                event_type = Some ''call'', tool_response = None, is_complete = None \<rparr>])
     (Some ''a''))
   = Some None"
  by (simp add: process_tool_calls_def merge_tool_call_def map_get_def Let_def)

text \<open>
  C2, amended. A payload changes no record but the one of its own call identifier, so a
  terminal record is kept by every later event for another identifier. A later "result"
  or "error" for the same identifier replaces the terminal result by that event's
  snapshot. A later event for the same identifier whose type is none of "result", "error",
  "delegation_result" clears the terminal result and the error flag: the record is pending
  again.
\<close>

theorem terminal_record_and_later_events:
  "(call_id p \<noteq> k \<longrightarrow> map_get (merge_tool_call m p) k = map_get m k)
   \<and> (event_type p = Some ''result'' \<or> event_type p = Some ''error'' \<longrightarrow>
        map_option result (map_get (merge_tool_call m p) (call_id p)) =
          Some (Some \<lparr> res_event_type = event_type p, response = tool_response p,
                        details = tool_call_details p \<rparr>))
   \<and> (event_type p \<noteq> Some ''result'' \<and> event_type p \<noteq> Some ''error''
        \<and> event_type p \<noteq> Some ''delegation_result'' \<longrightarrow>
        map_option result (map_get (merge_tool_call m p) (call_id p)) = Some None
        \<and> map_option isError (map_get (merge_tool_call m p) (call_id p)) = Some False)"
  using map_get_merge_tool_call_other [of p k m] result_merge_tool_call [of m p]
    isError_merge_tool_call [of m p]
  by auto

theorem terminal_record_and_later_events_witness:
  "map_get (merge_tool_call
      [(Some ''a'', \<lparr> toolCallId = Some ''a'', toolName = Some ''search'', args = JObj [],
          argsText = Stringify (JObj []),
          streamState = Some \<lparr> res_event_type = Some ''result'', response = Some ''42'',
                                 details = None \<rparr>,
          result = Some \<lparr> res_event_type = Some ''result'', response = Some ''42'',
                            details = None \<rparr>,
          isError = False \<rparr>)]
      \<lparr> call_id = Some ''b'', tool_name = Some ''fetch'', tool_call_details = None,
        event_type = Some ''call'', tool_response = None, is_complete = None \<rparr>) (Some ''a'')
   = Some \<lparr> toolCallId = Some ''a'', toolName = Some ''search'', args = JObj [],
          argsText = Stringify (JObj []),
          streamState = Some \<lparr> res_event_type = Some ''result'', response = Some ''42'',
                                 details = None \<rparr>,
          result = Some \<lparr> res_event_type = Some ''result'', response = Some ''42'',
                            details = None \<rparr>,
          isError = False \<rparr>
   \<and> map_option result (map_get (merge_tool_call []
        \<lparr> call_id = Some ''a'', tool_name = Some ''search'', tool_call_details = None,
          event_type = Some ''error'', tool_response = Some ''boom'', is_complete = None \<rparr>)
        (Some ''a''))
     = Some (Some \<lparr> res_event_type = Some ''error'', response = Some ''boom'',
                     details = None \<rparr>)
   \<and> map_option result (map_get (merge_tool_call []
        \<lparr> call_id = Some ''a'', tool_name = Some ''search'', tool_call_details = None,
          event_type = Some ''call'', tool_response = None, is_complete = None \<rparr>)
        (Some ''a''))
     = Some None"
  using
    terminal_record_and_later_events
      [of "\<lparr> call_id = Some ''b'', tool_name = Some ''fetch'', tool_call_details = None,
              event_type = Some ''call'', tool_response = None, is_complete = None \<rparr>"
          "Some ''a''"
          "[(Some ''a'', \<lparr> toolCallId = Some ''a'', toolName = Some ''search'', args = JObj [],
              argsText = Stringify (JObj []),
              streamState = Some \<lparr> res_event_type = Some ''result'', response = Some ''42'',
                                     details = None \<rparr>,
              result = Some \<lparr> res_event_type = Some ''result'', response = Some ''42'',
                                details = None \<rparr>,
              isError = False \<rparr>)]"]
    terminal_record_and_later_events
      [of "\<lparr> call_id = Some ''a'', tool_name = Some ''search'', tool_call_details = None,
              event_type = Some ''error'', tool_response = Some ''boom'', is_complete = None \<rparr>"
          "Some ''a''" "[]"]
    terminal_record_and_later_events
      [of "\<lparr> call_id = Some ''a'', tool_name = Some ''search'', tool_call_details = None,
              event_type = Some ''call'', tool_response = None, is_complete = None \<rparr>"
          "Some ''a''" "[]"]
  by (simp add: map_get_def)

section \<open>One record per call identifier\<close>

text \<open>
  C3. For every sequence of raw payloads, with call identifiers repeated or not, the
  reconciled map holds exactly one record per call identifier of a payload that parses:
  its keys are distinct and are those identifiers. Events that carry other identifiers
  leave the record of an identifier, and so its terminal state, as it was. The events
  \<^verbatim>\<open>{id:"a", type:"call", args:{x:1}}\<close> and \<^verbatim>\<open>{id:"a", type:"result", response:"42"}\<close> give
  one record for "a", whose terminal result carries the response "42".
\<close>

theorem one_record_per_call_id:
  "distinct (map_keys (process_tool_calls [] raws))
   \<and> set (map_keys (process_tool_calls [] raws)) = set (payload_ids raws)
   \<and> (k \<notin> set (payload_ids later) \<longrightarrow>
        map_get (process_tool_calls m later) k = map_get m k)
   \<and> process_tool_calls []
        [Parsed \<lparr> call_id = Some ''a'', tool_name = None,
                   tool_call_details = Some [(''arguments'', JObj [(''x'', JNum 1)])],
                   event_type = Some ''call'', tool_response = None, is_complete = None \<rparr>,
         Parsed \<lparr> call_id = Some ''a'', tool_name = None, tool_call_details = None,
                   event_type = Some ''result'', tool_response = Some ''42'',
                   is_complete = None \<rparr>]
      = [(Some ''a'',
          \<lparr> toolCallId = Some ''a'', toolName = None, args = JObj [(''x'', JNum 1)],
            argsText = Stringify (JObj [(''x'', JNum 1)]),
            streamState = Some \<lparr> res_event_type = Some ''result'', response = Some ''42'',
                                   details = None \<rparr>,
            result = Some \<lparr> res_event_type = Some ''result'', response = Some ''42'',
                              details = None \<rparr>,
            isError = False \<rparr>)]"
proof -
  have keys: "map_keys (process_tool_calls ([] :: tool_map) raws) =
      foldl add_key [] (payload_ids raws)"
    using map_keys_process_tool_calls [of "[]" raws] by (simp add: map_keys_def)
  have "distinct (map_keys (process_tool_calls [] raws))"
    unfolding keys by (rule distinct_foldl_add_key) simp
  moreover have "set (map_keys (process_tool_calls [] raws)) = set (payload_ids raws)"
    unfolding keys by (simp add: set_foldl_add_key)
  moreover have "k \<notin> set (payload_ids later) \<longrightarrow>
      map_get (process_tool_calls m later) k = map_get m k"
    by (simp add: map_get_process_tool_calls_other)
  moreover have "process_tool_calls []
        [Parsed \<lparr> call_id = Some ''a'', tool_name = None,
                   tool_call_details = Some [(''arguments'', JObj [(''x'', JNum 1)])],
                   event_type = Some ''call'', tool_response = None, is_complete = None \<rparr>,
         Parsed \<lparr> call_id = Some ''a'', tool_name = None, tool_call_details = None,
                   event_type = Some ''result'', tool_response = Some ''42'',
                   is_complete = None \<rparr>]
      = [(Some ''a'',
          \<lparr> toolCallId = Some ''a'', toolName = None, args = JObj [(''x'', JNum 1)],
            argsText = Stringify (JObj [(''x'', JNum 1)]),
            streamState = Some \<lparr> res_event_type = Some ''result'', response = Some ''42'',
                                   details = None \<rparr>,
            result = Some \<lparr> res_event_type = Some ''result'', response = Some ''42'',
                              details = None \<rparr>,
            isError = False \<rparr>)]"
    by (simp add: process_tool_calls_def merge_tool_call_def map_get_def Let_def)
  ultimately show ?thesis by blast
qed

theorem one_record_per_call_id_witness:
  "Some ''a'' \<notin> set (payload_ids
      [Parsed \<lparr> call_id = Some ''b'', tool_name = Some ''fetch'', tool_call_details = None,
                 event_type = Some ''call'', tool_response = None, is_complete = None \<rparr>,
       Malformed])
   \<and> map_option result (map_get (process_tool_calls
        (process_tool_calls []
          [Parsed \<lparr> call_id = Some ''a'', tool_name = Some ''search'', tool_call_details = None,
                     event_type = Some ''result'', tool_response = Some ''42'',
                     is_complete = None \<rparr>])
        [Parsed \<lparr> call_id = Some ''b'', tool_name = Some ''fetch'', tool_call_details = None,
                   event_type = Some ''call'', tool_response = None, is_complete = None \<rparr>,
         Malformed])
        (Some ''a''))
     = Some (Some \<lparr> res_event_type = Some ''result'', response = Some ''42'',
                     details = None \<rparr>)"
  using one_record_per_call_id
    [of "[]" "Some ''a''"
        "[Parsed \<lparr> call_id = Some ''b'', tool_name = Some ''fetch'', tool_call_details = None,
                    event_type = Some ''call'', tool_response = None, is_complete = None \<rparr>,
          Malformed]"
        "process_tool_calls []
          [Parsed \<lparr> call_id = Some ''a'', tool_name = Some ''search'', tool_call_details = None,
                     event_type = Some ''result'', tool_response = Some ''42'',
                     is_complete = None \<rparr>]"]
  by (simp add: process_tool_calls_def merge_tool_call_def map_get_def Let_def)

section \<open>Tool calls of loaded history are never marked as errors\<close>

text \<open>
  C10. \<^verbatim>\<open>apiToolCallToPart\<close> sets the error flag of every converted tool call to false,
  whatever the stored event type, also "error"; the streaming merge sets the flag of the
  record it stores for an "error" event.
\<close>

theorem history_tool_call_never_error:
  "isError (apiToolCallToPart tc) = False
   \<and> (event_type tc = Some ''error'' \<longrightarrow>
        map_option isError (map_get (merge_tool_call m tc) (call_id tc)) = Some True)"
proof -
  have "isError (apiToolCallToPart tc) = False"
    by (simp add: apiToolCallToPart_def Let_def)
  moreover have "event_type tc = Some ''error'' \<longrightarrow>
      map_option isError (map_get (merge_tool_call m tc) (call_id tc)) = Some True"
    by (simp only: isError_merge_tool_call) simp
  ultimately show ?thesis by blast
qed

theorem history_tool_call_never_error_witness:
  "isError (apiToolCallToPart
      \<lparr> call_id = Some ''a'', tool_name = Some ''search'', tool_call_details = None,
        event_type = Some ''error'', tool_response = Some ''boom'', is_complete = None \<rparr>)
     = False
   \<and> map_option isError (map_get (merge_tool_call []
      \<lparr> call_id = Some ''a'', tool_name = Some ''search'', tool_call_details = None,
        event_type = Some ''error'', tool_response = Some ''boom'', is_complete = None \<rparr>)
      (Some ''a''))
     = Some True"
  using history_tool_call_never_error
    [of "\<lparr> call_id = Some ''a'', tool_name = Some ''search'', tool_call_details = None,
          event_type = Some ''error'', tool_response = Some ''boom'', is_complete = None \<rparr>"
        "[]"]
  by simp

section \<open>Order of the segments of a content update\<close>

lemmas run_defs =
  run_start_def start_def stream_init_def resume_start_def resume_init_def
  onProgress_def onResolve_def onReject_def handleAbort_def loop_head_def
  after_loop_def after_await_def catch_block_def finally_block_def settle_race_def race_now_def
  pushToQueue_def onResumeProgress_def onSettled_def resume_loop_def
  idle_refs_def streaming_refs_def resume_refs_def user_turn_def search_call_def unnamed_call_def
  fetch_call_def call_record_def in_loop_def resolved_at_yield_def
  process_tool_calls_def merge_tool_call_def map_get_def map_values_def
  yield_content_def hasContent_def pushToQueue_content_def Let_def




section \<open>The last accumulated state reaches the consumer\<close>

text \<open>
  The claim C5 as stated fails. In normal mode the text "abc" is yielded; while the
  generator is suspended at that \<^verbatim>\<open>yield\<close> a second event brings the text "abcd"; the
  backend call rejects; the consumer pulls. The race of the next pass rejects, the error
  is thrown, and the run ends: the state of the last event was never published, and
  nothing was published after the call settled. Nor is anything published after the call
  resolves when the accumulated state has no content.
\<close>

theorem last_event_not_published:
  "updates
      (run_events ''chat''
         [Progress ''abc'' [] None, Wake, Progress ''abcd'' [] None, Reject, Pull, Wake]
         (snd (run_start ''chat'' idle_refs False user_turn None False)))
   = [[TextPart ''abc'']]
   \<and> ended
      (run_events ''chat''
         [Progress ''abc'' [] None, Wake, Progress ''abcd'' [] None, Reject, Pull, Wake]
         (snd (run_start ''chat'' idle_refs False user_turn None False)))
   \<and> threw
      (run_events ''chat''
         [Progress ''abc'' [] None, Wake, Progress ''abcd'' [] None, Reject, Pull, Wake]
         (snd (run_start ''chat'' idle_refs False user_turn None False)))
   \<and> updates
      (run_events ''chat'' [Progress [] [] None, Wake]
         (snd (run_start ''chat'' idle_refs False user_turn None False)))
   = [[]]
   \<and> updates
      (run_events ''chat'' [Progress [] [] None, Wake, Resolve ''s2'', Wake, Pull]
         (snd (run_start ''chat'' idle_refs False user_turn None False)))
   = [[]]
   \<and> ended
      (run_events ''chat'' [Progress [] [] None, Wake, Resolve ''s2'', Wake, Pull]
         (snd (run_start ''chat'' idle_refs False user_turn None False)))"
  by (simp add: run_defs)

text \<open>
  C5, amended. Normal mode: while the backend call is pending and the run is not aborted,
  if the call resolves and the consumer keeps pulling, the generator yields the update
  still owed by the loop (if it was awaiting with an update pending) and then, provided the
  accumulated state has content (reasoning, a tool call or text), one final update of that
  state; then it returns without throwing. If the call rejects instead, there is no final
  update and the error is thrown to the consumer. Resume mode has no final publish: a
  chunk pushed by the callback goes to the waiting consumer or to the queue, and after the
  call settles, by resolving or by rejecting, the generator yields every chunk still on
  its way, the last one last, before it returns.
\<close>

theorem last_state_is_delivered:
  "(run_events chatId evs (snd (run_start chatId r mm msgs nodes sig)) = Streaming s
      \<and> streamPromise s = Some Pending \<and> \<not> aborted s \<longrightarrow>
        updates (run_events chatId (evs @ [Resolve sid, Wake, Pull, Pull])
                   (snd (run_start chatId r mm msgs nodes sig)))
          = yielded s
            @ (if at s \<noteq> YieldedInLoop \<and> hasUpdate s then [snapshot s] else [])
            @ (if hasContent (accumulatedThinking s) (accumulatedToolCalls s) (accumulatedText s)
               then [snapshot s] else [])
        \<and> ended (run_events chatId (evs @ [Resolve sid, Wake, Pull, Pull])
                   (snd (run_start chatId r mm msgs nodes sig)))
        \<and> \<not> threw (run_events chatId (evs @ [Resolve sid, Wake, Pull, Pull])
                   (snd (run_start chatId r mm msgs nodes sig)))
        \<and> updates (run_events chatId (evs @ [Reject, Wake, Pull, Wake])
                   (snd (run_start chatId r mm msgs nodes sig)))
          = yielded s
            @ (if at s = AwaitingRace Fulfilled \<and> hasUpdate s then [snapshot s] else [])
        \<and> threw (run_events chatId (evs @ [Reject, Wake, Pull, Wake])
                   (snd (run_start chatId r mm msgs nodes sig))))
   \<and> (run_events chatId evs (snd (run_start chatId r mm msgs nodes sig)) = Resuming t
      \<and> resume_promise t = Some Pending \<and> length (in_flight t) + 1 < n
      \<and> (settle = Resolve sid \<or> settle = Reject) \<longrightarrow>
        updates (run_events chatId (evs @ [Progress message tcs th, settle, Wake]
                                       @ replicate n Pull)
                   (snd (run_start chatId r mm msgs nodes sig)))
          = resume_yielded t @ in_flight t
            @ [pushToQueue_content message
                 (process_tool_calls (resume_accumulatedToolCalls t) tcs)
                 (case th of None \<Rightarrow> resume_accumulatedThinking t | Some v \<Rightarrow> v)]
        \<and> ended (run_events chatId (evs @ [Progress message tcs th, settle, Wake]
                                       @ replicate n Pull)
                   (snd (run_start chatId r mm msgs nodes sig))))"
proof (intro conjI impI)
  let ?R = "snd (run_start chatId r mm msgs nodes sig)"
  assume a: "run_events chatId evs ?R = Streaming s \<and> streamPromise s = Some Pending
               \<and> \<not> aborted s"
  then obtain s0 where s0: "?R = Streaming s0"
    by (cases ?R) (simp_all add: run_events_Resuming)
  have "stream_inv s0 \<and> stream_pending_inv s0"
    using s0
    by (auto simp: run_start_def Let_def stream_inv_start stream_pending_inv_start
          split: option.splits if_splits)
  moreover have s: "s = stream_events chatId evs s0"
    using a by (simp add: s0 run_events_Streaming)
  ultimately have inv: "stream_inv s" "stream_pending_inv s"
    by (simp_all add: stream_inv_events stream_pending_inv_events)
  have p: "streamPromise s = Some Pending" and na: "\<not> aborted s"
    using a by simp_all
  note l = pending_location [OF inv p na]
  note res = resolve_then_pull [OF p na l(1), of chatId sid]
  have p': "streamPromise s = Some Pending \<and> \<not> streamFinished s \<and> waitForUpdate s = Pending"
    using p l by simp
  note rej = reject_then_pull [OF p' na l(2) l(1), of chatId]
  have run: "run_events chatId (evs @ evs') ?R = Streaming (stream_events chatId evs' s)" for evs'
    using a by (simp add: run_events_append run_events_Streaming)
  show "updates (run_events chatId (evs @ [Resolve sid, Wake, Pull, Pull]) ?R)
          = yielded s
            @ (if at s \<noteq> YieldedInLoop \<and> hasUpdate s then [snapshot s] else [])
            @ (if hasContent (accumulatedThinking s) (accumulatedToolCalls s) (accumulatedText s)
               then [snapshot s] else [])"
    unfolding run snapshot_def using res(1) by simp
  show "ended (run_events chatId (evs @ [Resolve sid, Wake, Pull, Pull]) ?R)"
    unfolding run using res(2) by simp
  show "\<not> threw (run_events chatId (evs @ [Resolve sid, Wake, Pull, Pull]) ?R)"
    unfolding run using res(3) l(3) by simp
  show "updates (run_events chatId (evs @ [Reject, Wake, Pull, Wake]) ?R)
          = yielded s
            @ (if at s = AwaitingRace Fulfilled \<and> hasUpdate s then [snapshot s] else [])"
    unfolding run snapshot_def using rej(1) by simp
  show "threw (run_events chatId (evs @ [Reject, Wake, Pull, Wake]) ?R)"
    unfolding run using rej(3) by simp
next
  let ?R = "snd (run_start chatId r mm msgs nodes sig)"
  let ?chunk = "pushToQueue_content message
                 (process_tool_calls (resume_accumulatedToolCalls t) tcs)
                 (case th of None \<Rightarrow> resume_accumulatedThinking t | Some v \<Rightarrow> v)"
  assume a: "run_events chatId evs ?R = Resuming t \<and> resume_promise t = Some Pending
               \<and> length (in_flight t) + 1 < n \<and> (settle = Resolve sid \<or> settle = Reject)"
  then obtain t0 where t0: "?R = Resuming t0"
    by (cases ?R) (simp_all add: run_events_Streaming)
  have "resume_inv t0"
    using t0 by (auto simp: run_start_def Let_def resume_inv_start split: option.splits if_splits)
  moreover have t: "t = resume_events evs t0"
    using a by (simp add: t0 run_events_Resuming)
  ultimately have inv: "resume_inv t"
    by (simp add: resume_inv_events)
  have p: "resume_promise t = Some Pending" and n: "length (in_flight t) + 1 < n"
    using a by simp_all
  define t1 where "t1 = resume_step (Progress message tcs th) t"
  define t2 where "t2 = resume_step settle t1"
  note pr = progress_in_flight [OF inv p, of message tcs th, folded t1_def]
  have inv1: "resume_inv t1"
    unfolding t1_def using inv by (rule resume_inv_step)
  have st: "in_flight t2 = in_flight t1" "resume_yielded t2 = resume_yielded t1" "finished t2"
    using a settle_in_flight(1-3) [OF inv1 pr(3), of sid] settle_in_flight(4-6) [OF inv1 pr(3)]
    by (auto simp: t2_def)
  have inv2: "resume_inv t2"
    unfolding t2_def using inv1 by (rule resume_inv_step)
  have "length (in_flight t2) < n"
    using st(1) pr(1) n by simp
  from drain [OF inv2 st(3) this]
  have d: "resume_yielded (resume_events (Wake # replicate n Pull) t2)
             = resume_yielded t @ in_flight t @ [?chunk]"
    "resume_at (resume_events (Wake # replicate n Pull) t2) = ResumeReturned"
    using st pr by simp_all
  have run: "run_events chatId (evs @ [Progress message tcs th, settle, Wake]
                                       @ replicate n Pull) ?R
      = Resuming (resume_events (Wake # replicate n Pull) t2)"
    using a by (simp add: run_events_append run_events_Resuming t1_def t2_def)
  show "updates (run_events chatId (evs @ [Progress message tcs th, settle, Wake]
                                       @ replicate n Pull) ?R)
          = resume_yielded t @ in_flight t @ [?chunk]"
    unfolding run using d(1) by simp
  show "ended (run_events chatId (evs @ [Progress message tcs th, settle, Wake]
                                       @ replicate n Pull) ?R)"
    unfolding run using d(2) by simp
qed

theorem last_state_is_delivered_witness:
  "run_events ''chat'' [Progress ''abc'' [] None]
      (snd (run_start ''chat'' idle_refs False user_turn None False))
   = Streaming
       \<lparr> accumulatedText = ''abc'', accumulatedThinking = None, accumulatedToolCalls = [],
         hasUpdate = True, aborted = False, streamFinished = False, waitForUpdate = Pending,
         streamPromise = Some Pending, at = AwaitingRace Fulfilled, signal_aborted = False,
         abort_listener = True,
         streamingState =
           \<lparr> sessionId = None, currentCursor = ''0-0'', isStreaming = True,
             isReconnecting = False, reconnectAttempts = 0 \<rparr>,
         calls = [StreamMessage ''chat'' ''hi'' [] [] None], yielded = [], thrown = False \<rparr>
   \<and> updates
        (run_events ''chat'' [Progress ''abc'' [] None, Resolve ''s2'', Wake, Pull, Pull]
           (snd (run_start ''chat'' idle_refs False user_turn None False)))
     = [[TextPart ''abc''], [TextPart ''abc'']]
   \<and> updates
        (run_events ''chat'' [Progress ''abc'' [] None, Reject, Wake, Pull, Wake]
           (snd (run_start ''chat'' idle_refs False user_turn None False)))
     = [[TextPart ''abc'']]
   \<and> threw
        (run_events ''chat'' [Progress ''abc'' [] None, Reject, Wake, Pull, Wake]
           (snd (run_start ''chat'' idle_refs False user_turn None False)))
   \<and> run_events ''chat'' [Progress ''abc'' [] None]
        (snd (run_start ''chat'' resume_refs False [] None False))
     = Resuming
         \<lparr> queue = [], resolve = False, finished = False, resume_accumulatedToolCalls = [],
           resume_accumulatedThinking = None,
           resume_at = ResumeAwaiting (Some (Some [TextPart ''abc''])),
           resume_promise = Some Pending,
           resume_calls = [ResumeWithCursor ''chat'' ''s1'' ''5-1''], resume_yielded = [] \<rparr>
   \<and> updates
        (run_events ''chat''
           [Progress ''abc'' [] None, Progress ''abcd'' [] None, Resolve ''s2'', Wake,
            Pull, Pull, Pull]
           (snd (run_start ''chat'' resume_refs False [] None False)))
     = [[TextPart ''abc''], [TextPart ''abcd'']]
   \<and> updates
        (run_events ''chat''
           [Progress ''abc'' [] None, Progress ''abcd'' [] None, Reject, Wake,
            Pull, Pull, Pull]
           (snd (run_start ''chat'' resume_refs False [] None False)))
     = [[TextPart ''abc''], [TextPart ''abcd'']]"
  using
    last_state_is_delivered
      [where chatId = "''chat''" and evs = "[Progress ''abc'' [] None]" and r = idle_refs
         and mm = False and msgs = user_turn and nodes = None and sig = False
         and sid = "''s2''"
         and s = "\<lparr> accumulatedText = ''abc'', accumulatedThinking = None,
                    accumulatedToolCalls = [], hasUpdate = True, aborted = False,
                    streamFinished = False, waitForUpdate = Pending,
                    streamPromise = Some Pending, at = AwaitingRace Fulfilled,
                    signal_aborted = False, abort_listener = True,
                    streamingState =
                      \<lparr> sessionId = None, currentCursor = ''0-0'', isStreaming = True,
                        isReconnecting = False, reconnectAttempts = 0 \<rparr>,
                    calls = [StreamMessage ''chat'' ''hi'' [] [] None], yielded = [],
                    thrown = False \<rparr>"]
    last_state_is_delivered
      [where chatId = "''chat''" and evs = "[Progress ''abc'' [] None]" and r = resume_refs
         and mm = False and msgs = "[]" and nodes = None and sig = False
         and sid = "''s2''" and n = 3 and message = "''abcd''" and tcs = "[]" and th = None
         and settle = "Resolve ''s2''"
         and t = "\<lparr> queue = [], resolve = False, finished = False,
                    resume_accumulatedToolCalls = [], resume_accumulatedThinking = None,
                    resume_at = ResumeAwaiting (Some (Some [TextPart ''abc''])),
                    resume_promise = Some Pending,
                    resume_calls = [ResumeWithCursor ''chat'' ''s1'' ''5-1''],
                    resume_yielded = [] \<rparr>"]
    last_state_is_delivered
      [where chatId = "''chat''" and evs = "[Progress ''abc'' [] None]" and r = resume_refs
         and mm = False and msgs = "[]" and nodes = None and sig = False
         and sid = "''s2''" and n = 3 and message = "''abcd''" and tcs = "[]" and th = None
         and settle = Reject
         and t = "\<lparr> queue = [], resolve = False, finished = False,
                    resume_accumulatedToolCalls = [], resume_accumulatedThinking = None,
                    resume_at = ResumeAwaiting (Some (Some [TextPart ''abc''])),
                    resume_promise = Some Pending,
                    resume_calls = [ResumeWithCursor ''chat'' ''s1'' ''5-1''],
                    resume_yielded = [] \<rparr>"]
  by (simp add: run_defs in_flight_def snapshot_def numeral_3_eq_3)

section \<open>Cancellation\<close>

text \<open>
  The claim C6 as stated fails for a resume-mode run. The resume branch registers no abort
  listener and never calls \<^verbatim>\<open>stopMessage\<close>: after the abort signal has fired, a chunk that
  was queued is still yielded when the consumer pulls, and the only backend call of the
  run is the resume call.
\<close>

theorem resume_run_ignores_cancellation:
  "updates
      (run_events ''chat'' [Progress ''abc'' [] None, Wake, Progress ''abcd'' [] None]
         (snd (run_start ''chat'' resume_refs False [] None False)))
   = [[TextPart ''abc'']]
   \<and> updates
      (run_events ''chat'' [Progress ''abc'' [] None, Wake, Progress ''abcd'' [] None, Abort, Pull]
         (snd (run_start ''chat'' resume_refs False [] None False)))
   = [[TextPart ''abc''], [TextPart ''abcd'']]
   \<and> backend_calls
      (run_events ''chat''
         [Progress ''abc'' [] None, Wake, Progress ''abcd'' [] None, Abort, Pull, Reject, Pull]
         (snd (run_start ''chat'' resume_refs False [] None False)))
   = [ResumeWithCursor ''chat'' ''s1'' ''5-1'']"
  by (simp add: run_defs)

text \<open>
  C6, amended. In a normal-mode (non-resume) run that has not ended, once the abort signal
  fires no further update is yielded whatever happens afterwards, no error is thrown to
  the consumer, the backend stop notification has been invoked exactly once, for this
  conversation, and the sequence ends as soon as the generator is resumed.
\<close>

theorem cancel_ends_normal_run:
  "resumeSessionRef r = None \<Longrightarrow>
   \<not> ended (run_events chatId before (snd (run_start chatId r mm msgs nodes sig))) \<Longrightarrow>
     updates (run_events chatId (before @ Abort # after) (snd (run_start chatId r mm msgs nodes sig)))
       = updates (run_events chatId before (snd (run_start chatId r mm msgs nodes sig)))
     \<and> \<not> threw (run_events chatId (before @ Abort # after)
                   (snd (run_start chatId r mm msgs nodes sig)))
     \<and> filter is_stop (backend_calls (run_events chatId (before @ Abort # after)
                   (snd (run_start chatId r mm msgs nodes sig)))) = [StopMessage chatId]
     \<and> ended (run_events chatId (before @ [Abort, Wake, Pull])
                   (snd (run_start chatId r mm msgs nodes sig)))"
proof -
  assume normal: "resumeSessionRef r = None"
    and live: "\<not> ended (run_events chatId before (snd (run_start chatId r mm msgs nodes sig)))"
  obtain s0 where s0: "snd (run_start chatId r mm msgs nodes sig) = Streaming s0"
    and inv0: "stream_inv s0"
    and stop0: "filter is_stop (calls s0)
                  = replicate (if aborted s0 then 1 else 0) (StopMessage chatId)"
    using normal live
    by (auto simp: run_start_def Let_def stream_inv_start stop_calls_start
          split: option.splits if_splits)
  define s1 where "s1 = stream_events chatId before s0"
  define sa where "sa = stream_step chatId Abort s1"
  have inv1: "stream_inv s1"
    unfolding s1_def using inv0 by (rule stream_inv_events)
  have live1: "at s1 \<noteq> Returned"
    using live by (simp add: s0 run_events_Streaming s1_def)
  have stop1: "filter is_stop (calls s1)
                 = replicate (if aborted s1 then 1 else 0) (StopMessage chatId)"
    unfolding s1_def using stop0 by (rule stop_calls_events)
  have sa: "aborted sa" "yielded sa = yielded s1" "\<not> thrown sa"
    using abort_sets_aborted [OF inv1 live1, of chatId] by (simp_all add: sa_def)
  have stopa: "filter is_stop (calls sa) = [StopMessage chatId]"
    using stop_calls_stream_step [OF stop1, of Abort] sa(1) by (simp add: sa_def)
  have inva: "stream_inv sa"
    unfolding sa_def using inv1 by (rule stream_inv_step)
  have run1: "run_events chatId before (snd (run_start chatId r mm msgs nodes sig)) = Streaming s1"
    by (simp add: s0 run_events_Streaming s1_def)
  have run2: "run_events chatId (before @ Abort # evs) (snd (run_start chatId r mm msgs nodes sig))
      = Streaming (stream_events chatId evs sa)" for evs
    by (simp add: run_events_append run1 run_events_Streaming sa_def)
  from aborted_events [OF sa(1), of chatId after] sa stopa
  have "yielded (stream_events chatId after sa) = yielded s1"
    and "\<not> thrown (stream_events chatId after sa)"
    and "filter is_stop (calls (stream_events chatId after sa)) = [StopMessage chatId]"
    by simp_all
  moreover have "at (stream_events chatId [Wake, Pull] sa) = Returned"
    using inva sa(1) by (rule aborted_ends)
  ultimately show ?thesis
    by (simp add: run2 run1)
qed

theorem cancel_ends_normal_run_witness:
  "resumeSessionRef idle_refs = None
   \<and> \<not> ended (run_events ''chat'' [Progress ''abc'' [] None, Wake]
                (snd (run_start ''chat'' idle_refs False user_turn None False)))
   \<and> updates (run_events ''chat''
        [Progress ''abc'' [] None, Wake, Abort, Progress ''abcd'' [] None, Reject, Wake, Pull]
        (snd (run_start ''chat'' idle_refs False user_turn None False)))
     = [[TextPart ''abc'']]
   \<and> \<not> threw (run_events ''chat''
        [Progress ''abc'' [] None, Wake, Abort, Progress ''abcd'' [] None, Reject, Wake, Pull]
        (snd (run_start ''chat'' idle_refs False user_turn None False)))
   \<and> backend_calls (run_events ''chat''
        [Progress ''abc'' [] None, Wake, Abort, Progress ''abcd'' [] None, Reject, Wake, Pull]
        (snd (run_start ''chat'' idle_refs False user_turn None False)))
     = [StreamMessage ''chat'' ''hi'' [] [] None, StopMessage ''chat'']
   \<and> ended (run_events ''chat'' [Progress ''abc'' [] None, Wake, Abort, Wake, Pull]
        (snd (run_start ''chat'' idle_refs False user_turn None False)))"
  using cancel_ends_normal_run
    [where r = idle_refs and chatId = "''chat''" and before = "[Progress ''abc'' [] None, Wake]"
       and mm = False and msgs = user_turn and nodes = None and sig = False
       and after = "[Progress ''abcd'' [] None, Reject, Wake, Pull]"]
  by (simp add: run_defs)

section \<open>Refusing a run\<close>

text \<open>
  The claim C7 as stated fails: with the streaming flag of the conversation set and no
  background task, a new non-resume run is not refused and calls \<^verbatim>\<open>streamMessage\<close>. The
  flag \<^verbatim>\<open>isStreaming\<close> is written by a run and read nowhere.
\<close>

theorem run_started_while_streaming:
  "isStreaming (streamingStateRef streaming_refs)
   \<and> resumeSessionRef streaming_refs = None
   \<and> \<not> threw (snd (run_start ''chat'' streaming_refs False user_turn None False))
   \<and> backend_calls (snd (run_start ''chat'' streaming_refs False user_turn None False))
     = [StreamMessage ''chat'' ''hi'' [] [] None]"
  by (simp add: run_defs)

text \<open>
  C7, amended. When the background-task flag is set and no resume request is pending, a
  newly requested run is refused with the error "Background task is active": the
  references are left as they were and no backend call is ever made by that run.
\<close>

theorem run_refused_during_background_task:
  "isBackgroundTaskActiveRef r \<Longrightarrow> resumeSessionRef r = None \<Longrightarrow>
     run_start chatId r mm msgs nodes sig = (r, Refused BackgroundTaskActive)
     \<and> backend_calls (run_events chatId evs (snd (run_start chatId r mm msgs nodes sig))) = []"
  by (simp add: run_start_def)

theorem run_refused_during_background_task_witness:
  "isBackgroundTaskActiveRef (idle_refs \<lparr> isBackgroundTaskActiveRef := True \<rparr>)
   \<and> resumeSessionRef (idle_refs \<lparr> isBackgroundTaskActiveRef := True \<rparr>) = None
   \<and> run_start ''chat'' (idle_refs \<lparr> isBackgroundTaskActiveRef := True \<rparr>) False user_turn
        None False
     = (idle_refs \<lparr> isBackgroundTaskActiveRef := True \<rparr>, Refused BackgroundTaskActive)
   \<and> backend_calls (run_events ''chat'' [Pull, Wake]
        (snd (run_start ''chat'' (idle_refs \<lparr> isBackgroundTaskActiveRef := True \<rparr>) False
                user_turn None False)))
     = []"
  using run_refused_during_background_task
    [where r = "idle_refs \<lparr> isBackgroundTaskActiveRef := True \<rparr>" and chatId = "''chat''"
       and mm = False and msgs = user_turn and nodes = None and sig = False
       and evs = "[Pull, Wake]"]
  by (simp add: idle_refs_def)

section \<open>Resuming\<close>

text \<open>
  C8. When a resume request is pending, the run reads it and clears the reference; the
  only backend call the run ever makes is the resume call, with the conversation id of the
  adapter and the session id and cursor of the request, whatever the messages passed to
  the run, so the text of the user's message is never sent; and a run started from the
  references it leaves behind makes no resume call.
\<close>

theorem resume_request_consumed_once:
  "resumeSessionRef r = Some info \<Longrightarrow>
     fst (run_start chatId r mm msgs nodes sig) = r \<lparr> resumeSessionRef := None \<rparr>
     \<and> backend_calls (run_events chatId evs (snd (run_start chatId r mm msgs nodes sig)))
         = [ResumeWithCursor chatId (resume_sessionId info) (cursor info)]
     \<and> list_all (\<lambda>c. \<not> is_resume c)
         (backend_calls (run_events chatId evs'
            (snd (run_start chatId (fst (run_start chatId r mm msgs nodes sig))
                    mm' msgs' nodes' sig'))))"
proof -
  assume a: "resumeSessionRef r = Some info"
  have 1: "fst (run_start chatId r mm msgs nodes sig) = r \<lparr> resumeSessionRef := None \<rparr>"
    using a by (simp add: run_start_def)
  have 2: "backend_calls (run_events chatId evs (snd (run_start chatId r mm msgs nodes sig)))
         = [ResumeWithCursor chatId (resume_sessionId info) (cursor info)]"
    using a by (simp add: run_start_def backend_calls_Resuming resume_start_def resume_init_def)
  have 3: "list_all (\<lambda>c. \<not> is_resume c)
         (backend_calls (run_events chatId evs'
            (snd (run_start chatId (fst (run_start chatId r mm msgs nodes sig))
                    mm' msgs' nodes' sig'))))"
    unfolding 1 by (rule run_start_no_resume) simp
  from 1 2 3 show ?thesis by blast
qed

theorem resume_request_consumed_once_witness:
  "resumeSessionRef resume_refs = Some \<lparr> resume_sessionId = ''s1'', cursor = ''5-1'' \<rparr>
   \<and> resumeSessionRef (fst (run_start ''chat'' resume_refs False user_turn None False)) = None
   \<and> backend_calls
        (run_events ''chat'' [Progress ''abc'' [] None, Wake, Pull, Resolve ''s1'', Wake]
           (snd (run_start ''chat'' resume_refs False user_turn None False)))
     = [ResumeWithCursor ''chat'' ''s1'' ''5-1'']
   \<and> backend_calls
        (run_events ''chat'' [Progress ''abc'' [] None, Wake]
           (snd (run_start ''chat''
                   ((fst (run_start ''chat'' resume_refs False user_turn None False))
                      \<lparr> isBackgroundTaskActiveRef := False \<rparr>)
                   False user_turn None False)))
     = [StreamMessage ''chat'' ''hi'' [] [] None]"
  using resume_request_consumed_once
    [where r = resume_refs and info = "\<lparr> resume_sessionId = ''s1'', cursor = ''5-1'' \<rparr>"
       and chatId = "''chat''" and mm = False and msgs = user_turn and nodes = None
       and sig = False
       and evs = "[Progress ''abc'' [] None, Wake, Pull, Resolve ''s1'', Wake]"]
  by (simp add: run_defs)

section \<open>The text segment\<close>

text \<open>
  The claim C9 as stated fails in normal mode: after an event that carries reasoning and an
  empty answer text, the update yielded is the reasoning segment alone.
\<close>

theorem reasoning_only_update:
  "updates
      (run_events ''chat'' [Progress '''' [] (Some (Some ''plan'')), Wake]
         (snd (run_start ''chat'' idle_refs False user_turn None False)))
   = [[Reasoning ''plan'']]"
  by (simp add: run_defs)

text \<open>
  C9, amended. Normal mode: an event adds at most one update, built from the state
  accumulated at that moment, and that update carries the text segment exactly when the
  accumulated text is non-empty; the accumulated text is the message of the last
  invocation of the callback, and the empty string before the first (for a run whose
  signal was not aborted at the start); so no update of a normal-mode run carries an empty
  text segment. Resume mode: the updates yielded, followed by the chunks still on their
  way, are the chunks that the callback has built, in order, and the chunk built by an
  invocation carries exactly one text segment, the message of that invocation, also when
  it is empty.
\<close>

theorem text_segment_presence:
  "(run_events chatId evs (snd (run_start chatId r mm msgs nodes sig)) = Streaming s \<longrightarrow>
        (updates (run_events chatId (evs @ [e]) (snd (run_start chatId r mm msgs nodes sig)))
           = yielded s
         \<or> updates (run_events chatId (evs @ [e]) (snd (run_start chatId r mm msgs nodes sig)))
           = yielded s @ [snapshot s])
        \<and> text_parts (snapshot s) = (if accumulatedText s = [] then [] else [accumulatedText s])
        \<and> (\<not> sig \<longrightarrow>
             accumulatedText s
               = (if handled True evs = [] then [] else fst (last (handled True evs))))
        \<and> list_all (\<lambda>u. [] \<notin> set (text_parts u))
             (updates (run_events chatId evs (snd (run_start chatId r mm msgs nodes sig)))))
   \<and> (run_events chatId evs (snd (run_start chatId r mm msgs nodes sig)) = Resuming t \<longrightarrow>
        updates (run_events chatId evs (snd (run_start chatId r mm msgs nodes sig))) @ in_flight t
          = built ('''', None, []) (handled False evs)
        \<and> (k < length (handled False evs) \<longrightarrow>
             text_parts (built ('''', None, []) (handled False evs) ! k)
               = [fst (handled False evs ! k)])
        \<and> list_all (\<lambda>u. length (text_parts u) = 1)
             (updates (run_events chatId evs (snd (run_start chatId r mm msgs nodes sig)))))"
proof (intro conjI impI)
  let ?R = "snd (run_start chatId r mm msgs nodes sig)"
  assume run: "run_events chatId evs ?R = Streaming s"
  have "yielded (stream_step chatId e s) = yielded s
        \<or> yielded (stream_step chatId e s) = yielded s @ [snapshot s]"
    by (cases e) (auto simp: stream_defs snapshot_def split: location.splits promise.splits)
  then show "updates (run_events chatId (evs @ [e]) ?R) = yielded s
         \<or> updates (run_events chatId (evs @ [e]) ?R) = yielded s @ [snapshot s]"
    using run by (simp add: run_events_append)
next
  show "text_parts (snapshot s) = (if accumulatedText s = [] then [] else [accumulatedText s])"
    by (simp add: snapshot_def yield_content_def text_parts_append split: option.splits)
next
  let ?R = "snd (run_start chatId r mm msgs nodes sig)"
  assume run: "run_events chatId evs ?R = Streaming s" and sig: "\<not> sig"
  have "accumulated s = foldl accumulate ('''', None, []) (handled True evs)"
    using sig run by (rule accumulated_normal_run)
  then have "accumulatedText s = fst (foldl accumulate ('''', None, []) (handled True evs))"
    by (metis accumulated_def fst_conv snd_conv)
  then show "accumulatedText s
               = (if handled True evs = [] then [] else fst (last (handled True evs)))"
    by (simp add: text_foldl_accumulate)
next
  let ?R = "snd (run_start chatId r mm msgs nodes sig)"
  assume run: "run_events chatId evs ?R = Streaming s"
  have "resumeSessionRef r = None"
  proof (cases "resumeSessionRef r")
    case (Some info)
    then show ?thesis using run by (simp add: run_start_def run_events_Resuming)
  qed simp
  then show "list_all (\<lambda>u. [] \<notin> set (text_parts u)) (updates (run_events chatId evs ?R))"
    by (intro updates_normal)
       (simp_all add: yield_content_def text_parts_append split: option.splits)
next
  let ?R = "snd (run_start chatId r mm msgs nodes sig)"
  assume run: "run_events chatId evs ?R = Resuming t"
  then show "updates (run_events chatId evs ?R) @ in_flight t
          = built ('''', None, []) (handled False evs)"
    using chunks_resume_run [OF run] by simp
next
  assume k: "k < length (handled False evs)"
  obtain a b c where
    acc: "foldl accumulate ('''', None, []) (take (Suc k) (handled False evs)) = (a, b, c)"
    by (cases "foldl accumulate ('''', None, []) (take (Suc k) (handled False evs))") auto
  have "fst (foldl accumulate ('''', None, []) (take (Suc k) (handled False evs)))
          = fst (handled False evs ! k)"
    using k by (simp only: text_foldl_accumulate take_Suc_conv_app_nth) simp
  then have a: "a = fst (handled False evs ! k)"
    by (simp add: acc)
  show "text_parts (built ('''', None, []) (handled False evs) ! k)
               = [fst (handled False evs ! k)]"
    using k
    by (simp add: built_nth acc a [symmetric] pushToQueue_content_def text_parts_append
          split: option.splits)
next
  let ?R = "snd (run_start chatId r mm msgs nodes sig)"
  assume run: "run_events chatId evs ?R = Resuming t"
  have "resumeSessionRef r \<noteq> None"
  proof
    assume "resumeSessionRef r = None"
    then show False using run
      by (auto simp: run_start_def Let_def run_events_Streaming split: option.splits if_splits)
  qed
  then show "list_all (\<lambda>u. length (text_parts u) = 1) (updates (run_events chatId evs ?R))"
    by (intro updates_resume)
       (simp_all add: pushToQueue_content_def text_parts_append split: option.splits)
qed

theorem text_segment_presence_witness:
  "run_events ''chat''
      [Progress [] [Parsed search_call] None, Wake, Pull, Progress ''done'' [] None]
      (snd (run_start ''chat'' idle_refs False user_turn None False))
   = Streaming
       (in_loop (AwaitingRace Fulfilled) ''done'' None
          [(Some ''a'', call_record ''a'' ''search'')] True
          [[ToolPart (call_record ''a'' ''search'')]])
   \<and> updates
        (run_events ''chat''
           [Progress [] [Parsed search_call] None, Wake, Pull, Progress ''done'' [] None, Wake]
           (snd (run_start ''chat'' idle_refs False user_turn None False)))
     = [[ToolPart (call_record ''a'' ''search'')],
        [ToolPart (call_record ''a'' ''search''), TextPart ''done'']]
   \<and> fst (last (handled True
        [Progress [] [Parsed search_call] None, Wake, Pull, Progress ''done'' [] None]))
     = ''done''
   \<and> run_events ''chat'' [Progress [] [] None, Progress ''done'' [] None]
        (snd (run_start ''chat'' resume_refs False [] None False))
     = Resuming
         \<lparr> queue = [[TextPart ''done'']], resolve = False, finished = False,
           resume_accumulatedToolCalls = [], resume_accumulatedThinking = None,
           resume_at = ResumeAwaiting (Some (Some [TextPart []])),
           resume_promise = Some Pending,
           resume_calls = [ResumeWithCursor ''chat'' ''s1'' ''5-1''], resume_yielded = [] \<rparr>
   \<and> built ('''', None, []) (handled False [Progress [] [] None, Progress ''done'' [] None])
     = [[TextPart []], [TextPart ''done'']]
   \<and> (0 :: nat) < length (handled False [Progress [] [] None, Progress ''done'' [] None])
   \<and> text_parts
        (built ('''', None, []) (handled False [Progress [] [] None, Progress ''done'' [] None])
           ! 0)
     = [[]]
   \<and> run_events ''chat''
        [Progress [] [Parsed search_call] None, Wake, Progress ''done'' [] None, Resolve ''s2'']
        (snd (run_start ''chat'' idle_refs False user_turn None False))
     = Streaming
         (resolved_at_yield ''done'' None [(Some ''a'', call_record ''a'' ''search'')] True
            [[ToolPart (call_record ''a'' ''search'')]])
   \<and> updates
        (run_events ''chat''
           [Progress [] [Parsed search_call] None, Wake, Progress ''done'' [] None,
            Resolve ''s2'', Pull]
           (snd (run_start ''chat'' idle_refs False user_turn None False)))
     = [[ToolPart (call_record ''a'' ''search'')],
        [ToolPart (call_record ''a'' ''search''), TextPart ''done'']]
   \<and> updates
        (run_events ''chat''
           [Progress [] [] None, Progress ''do'' [] None, Progress ''done'' [] None,
            Wake, Pull, Pull]
           (snd (run_start ''chat'' resume_refs False [] None False)))
     = [[TextPart []], [TextPart ''do''], [TextPart ''done'']]"
  using
    text_segment_presence
      [where chatId = "''chat''" and r = idle_refs and mm = False and msgs = user_turn
         and nodes = None and sig = False and e = Pull and k = 0
         and evs = "[Progress [] [Parsed search_call] None, Wake, Progress ''done'' [] None,
                     Resolve ''s2'']"
         and s = "resolved_at_yield ''done'' None [(Some ''a'', call_record ''a'' ''search'')]
                    True [[ToolPart (call_record ''a'' ''search'')]]"]
    text_segment_presence
      [where chatId = "''chat''" and r = idle_refs and mm = False and msgs = user_turn
         and nodes = None and sig = False and e = Wake and k = 0
         and evs = "[Progress [] [Parsed search_call] None, Wake, Pull,
                     Progress ''done'' [] None]"
         and s = "in_loop (AwaitingRace Fulfilled) ''done'' None
                    [(Some ''a'', call_record ''a'' ''search'')] True
                    [[ToolPart (call_record ''a'' ''search'')]]"]
    text_segment_presence
      [where chatId = "''chat''" and r = resume_refs and mm = False and msgs = "[]"
         and nodes = None and sig = False and e = Wake and k = 0
         and evs = "[Progress [] [] None, Progress ''done'' [] None]"
         and t = "\<lparr> queue = [[TextPart ''done'']], resolve = False, finished = False,
                    resume_accumulatedToolCalls = [], resume_accumulatedThinking = None,
                    resume_at = ResumeAwaiting (Some (Some [TextPart []])),
                    resume_promise = Some Pending,
                    resume_calls = [ResumeWithCursor ''chat'' ''s1'' ''5-1''],
                    resume_yielded = [] \<rparr>"]
  by (simp add: run_defs snapshot_def in_flight_def)

end
